theory Spec2Isabelle
  imports Main
begin



section \<open>Data model\<close>

text \<open>
  \<^verbatim>\<open>FileMetadata\<close>: one record per path and store.  The interface is declared in
  fs.ts, outside the sources at hand; its six fields are those fs.local.ts fills in
  (lines 121-128).  Timestamps are integer epoch milliseconds; \<^verbatim>\<open>size\<close> is called
  \<open>size_bytes\<close> here.
\<close>

record FileMetadata =
  path :: string
  size_bytes :: int
  createdAt :: int
  updatedAt :: int
  deletedAt :: int
  deleted :: bool

datatype SyncActionKind = Prune | Remove | Conflict | Push | Pull

text \<open>\<^verbatim>\<open>interface SyncAction\<close> (sync-controller.ts, lines 7-11).\<close>

record SyncAction =
  hostFile :: "FileMetadata option"
  remoteFile :: "FileMetadata option"
  action :: SyncActionKind

text \<open>
  The sources throw \<^verbatim>\<open>Error\<close> objects.  \<open>FileModifiedSinceLastSync\<close> is the error
  of the local store's staleness check (message \<^verbatim>\<open>File has been modified since last
  sync\<close>); \<open>StoreError\<close> stands for whatever a store or the cipher throws otherwise.
\<close>

datatype error = FileModifiedSinceLastSync | StoreError string

text \<open>An \<^verbatim>\<open>ArrayBuffer\<close> is a list of bytes.\<close>

type_synonym ArrayBuffer = "char list"

section \<open>Sync action planner (sync-controller.ts, createSyncAction)\<close>

text \<open>\<^verbatim>\<open>createAction\<close>, lines 62-68.\<close>

definition createAction ::
  "FileMetadata option \<Rightarrow> FileMetadata option \<Rightarrow> SyncActionKind \<Rightarrow> SyncAction" where
  "createAction h r k = \<lparr>hostFile = h, remoteFile = r, action = k\<rparr>"

text \<open>\<^verbatim>\<open>getFile\<close>, lines 313-315: the first record of the list with the given path.\<close>

definition getFile :: "FileMetadata list \<Rightarrow> string \<Rightarrow> FileMetadata option" where
  "getFile files p = find (\<lambda>file. path file = p) files"

text \<open>
  The \<^verbatim>\<open>Map<string, SyncAction>\<close> of lines 202-210 as an association list in
  insertion order (a JavaScript \<^verbatim>\<open>Map\<close> iterates in insertion order); the local
  function \<^verbatim>\<open>set\<close> inserts only when the key is absent.
\<close>

type_synonym ActionMap = "(string \<times> SyncAction) list"

definition set_action :: "string \<Rightarrow> SyncAction \<Rightarrow> ActionMap \<Rightarrow> ActionMap" where
  "set_action key v objMap =
     (if map_of objMap key \<noteq> None then objMap else objMap @ [(key, v)])"

text \<open>Body of the loop over remote tombstones, lines 215-230.\<close>

definition remoteDeletedStep :: "FileMetadata list \<Rightarrow> FileMetadata \<Rightarrow> ActionMap \<Rightarrow> ActionMap" where
  "remoteDeletedStep hostFiles remoteDeletedFile objMap =
     (case getFile hostFiles (path remoteDeletedFile) of
        Some hostF \<Rightarrow>
          if deleted hostF then
            set_action (path hostF)
              (createAction (Some hostF) (Some remoteDeletedFile) Prune) objMap
          else if createdAt hostF < deletedAt remoteDeletedFile then
            set_action (path hostF)
              (createAction (Some hostF) (Some remoteDeletedFile) Remove) objMap
          else
            set_action (path hostF)
              (createAction (Some hostF) (Some remoteDeletedFile) Push) objMap
      | None \<Rightarrow> objMap)"

text \<open>Body of the loop over host tombstones, lines 235-253.\<close>

definition hostDeletedStep :: "FileMetadata list \<Rightarrow> FileMetadata \<Rightarrow> ActionMap \<Rightarrow> ActionMap" where
  "hostDeletedStep remoteFiles hostDeletedFile objMap =
     (case getFile remoteFiles (path hostDeletedFile) of
        Some remoteF \<Rightarrow>
          if deleted remoteF then objMap
          else if createdAt remoteF < deletedAt hostDeletedFile then
            set_action (path remoteF)
              (createAction (Some hostDeletedFile) (Some remoteF) Remove) objMap
          else
            set_action (path hostDeletedFile)
              (createAction (Some hostDeletedFile) (Some remoteF) Pull) objMap
      | None \<Rightarrow>
          set_action (path hostDeletedFile)
            (createAction (Some hostDeletedFile) None Prune) objMap)"

text \<open>Body of the loop over live host files, lines 257-268.\<close>

definition hostModifiedStep ::
  "FileMetadata list \<Rightarrow> int \<Rightarrow> FileMetadata \<Rightarrow> ActionMap \<Rightarrow> ActionMap" where
  "hostModifiedStep remoteFiles last_synced_at hostModifiedFile objMap =
     (case getFile remoteFiles (path hostModifiedFile) of
        None \<Rightarrow>
          set_action (path hostModifiedFile)
            (createAction (Some hostModifiedFile) None Push) objMap
      | Some remoteF \<Rightarrow>
          if updatedAt remoteF < updatedAt hostModifiedFile then
            set_action (path hostModifiedFile)
              (createAction (Some hostModifiedFile) (Some remoteF) Push) objMap
          else if updatedAt remoteF > last_synced_at then
            set_action (path hostModifiedFile)
              (createAction (Some hostModifiedFile) (Some remoteF) Conflict) objMap
          else objMap)"

text \<open>Body of the loop over live remote files, lines 272-284.\<close>

definition remoteModifiedStep ::
  "FileMetadata list \<Rightarrow> int \<Rightarrow> FileMetadata \<Rightarrow> ActionMap \<Rightarrow> ActionMap" where
  "remoteModifiedStep hostFiles last_synced_at remoteModifiedFile objMap =
     (case getFile hostFiles (path remoteModifiedFile) of
        None \<Rightarrow>
          set_action (path remoteModifiedFile)
            (createAction None (Some remoteModifiedFile) Pull) objMap
      | Some hostF \<Rightarrow>
          if updatedAt hostF < updatedAt remoteModifiedFile then
            set_action (path remoteModifiedFile)
              (createAction (Some hostF) (Some remoteModifiedFile) Pull) objMap
          else if updatedAt hostF > last_synced_at then
            set_action (path remoteModifiedFile)
              (createAction (Some hostF) (Some remoteModifiedFile) Conflict) objMap
          else objMap)"

text \<open>
  The map after the four loops, in the order of the source; \<^verbatim>\<open>last_synced_at\<close> is
  the controller's field, read by the last two loops.
\<close>

definition syncActionMap :: "FileMetadata list \<Rightarrow> FileMetadata list \<Rightarrow> int \<Rightarrow> ActionMap" where
  "syncActionMap hostFiles remoteFiles last_synced_at =
     fold (remoteModifiedStep hostFiles last_synced_at) (filter (\<lambda>file. \<not> deleted file) remoteFiles)
       (fold (hostModifiedStep remoteFiles last_synced_at) (filter (\<lambda>file. \<not> deleted file) hostFiles)
         (fold (hostDeletedStep remoteFiles) (filter deleted hostFiles)
           (fold (remoteDeletedStep hostFiles) (filter deleted remoteFiles) [])))"

text \<open>\<^verbatim>\<open>createSyncAction\<close>, lines 201-287: \<^verbatim>\<open>Array.from(objMap.values())\<close>.\<close>

definition createSyncAction ::
  "FileMetadata list \<Rightarrow> FileMetadata list \<Rightarrow> int \<Rightarrow> SyncAction list" where
  "createSyncAction hostFiles remoteFiles last_synced_at =
     map snd (syncActionMap hostFiles remoteFiles last_synced_at)"

text \<open>The paths an action is about: those of the records it carries.\<close>

definition actionPaths :: "SyncAction \<Rightarrow> string set" where
  "actionPaths a = path ` (set_option (hostFile a) \<union> set_option (remoteFile a))"

definition actionsFor :: "string \<Rightarrow> SyncAction list \<Rightarrow> SyncAction list" where
  "actionsFor p acts = filter (\<lambda>a. p \<in> actionPaths a) acts"

text \<open>
  Two notions used by the proofs about the planner.  A loop body is \<^emph>\<open>keyed\<close> when it
  either leaves the map alone or inserts, under the path of the file it visits, an action
  about that path only; a map is well formed when its keys are distinct and every action
  is about its key.
\<close>

definition keyedStep :: "(FileMetadata \<Rightarrow> ActionMap \<Rightarrow> ActionMap) \<Rightarrow> bool" where
  "keyedStep stp \<longleftrightarrow>
     (\<forall>f m. stp f m = m \<or> (\<exists>v. actionPaths v = {path f} \<and> stp f m = set_action (path f) v m))"

definition wfActionMap :: "ActionMap \<Rightarrow> bool" where
  "wfActionMap m \<longleftrightarrow> distinct (map fst m) \<and> (\<forall>(k, a) \<in> set m. actionPaths a = {k})"


section \<open>Strings\<close>

text \<open>
  \<^verbatim>\<open>String.prototype.split\<close> with a one-character separator: the pieces between the
  occurrences of the separator, empty pieces included; a string without the separator
  (the empty string too) gives one piece.
\<close>

fun split_on :: "char \<Rightarrow> string \<Rightarrow> string list" where
  "split_on c [] = [[]]"
| "split_on c (x # xs) =
     (if x = c then [] # split_on c xs
      else (case split_on c xs of
              [] \<Rightarrow> [[x]]
            | piece # pieces \<Rightarrow> (x # piece) # pieces))"

text \<open>
  \<^verbatim>\<open>String.prototype.trim\<close>: strips white space and line terminators from both ends.
  Characters are 8-bit here, so the class is tab, line feed, vertical tab, form feed,
  carriage return, space and the no-break space.
\<close>

definition isWhiteSpace :: "char \<Rightarrow> bool" where
  "isWhiteSpace c \<longleftrightarrow>
     c \<in> set [CHR 0x09, CHR 0x0A, CHR 0x0B, CHR 0x0C, CHR 0x0D, CHR 0x20, CHR 0xA0]"

definition trim :: "string \<Rightarrow> string" where
  "trim s = rev (dropWhile isWhiteSpace (rev (dropWhile isWhiteSpace s)))"

text \<open>
  \<^verbatim>\<open>String.prototype.lastIndexOf\<close> for one character (\<open>-1\<close> when absent) and
  \<^verbatim>\<open>String.prototype.substring\<close> (both indices clamped to the string, swapped when out
  of order).
\<close>

fun lastIndexOf :: "char \<Rightarrow> string \<Rightarrow> int" where
  "lastIndexOf c [] = - 1"
| "lastIndexOf c (x # xs) =
     (let r = lastIndexOf c xs in
      if 0 \<le> r then r + 1 else if x = c then 0 else - 1)"

definition substring :: "string \<Rightarrow> int \<Rightarrow> int \<Rightarrow> string" where
  "substring s start stop =
     (let a = min (nat start) (length s); b = min (nat stop) (length s)
      in take (max a b - min a b) (drop (min a b) s))"

section \<open>Settings (settings-controller.ts)\<close>

text \<open>
  Modelled from the spec: the type \<^verbatim>\<open>ConflictResolutionStrategy\<close> and the settings
  object are declared in settings-controller.ts, which is not among the sources.  The six
  strategies are those of the applier's switch; the fields are those the sources read.
\<close>

datatype ConflictResolutionStrategy =
  Resolve | Ignore | Latest | Oldest | AlwaysPull | AlwaysPush

record ResolutionRule =
  glob :: string
  strategy :: ConflictResolutionStrategy

record Settings =
  last_synced_at :: "int option"
  exclude_globs :: string
  resolution_strategies :: "ResolutionRule list"
  fallback_conflict_resolution_strategy :: ConflictResolutionStrategy
  sync_internal_files :: bool

section \<open>Conflict resolver (conflict-resolver.ts)\<close>

text \<open>
  \<^verbatim>\<open>getExtension\<close>, lines 30-32: \<^verbatim>\<open>file.path.split('.').pop()\<close>, which is
  \<^verbatim>\<open>undefined\<close> on an empty array.
\<close>

definition getExtension :: "FileMetadata \<Rightarrow> string option" where
  "getExtension file =
     (let parts = split_on CHR ''.'' (path file)
      in if parts = [] then None else Some (last parts))"

text \<open>\<^verbatim>\<open>isTextBasedFile\<close>, lines 34-55, with the array as the source writes it.\<close>

definition isTextBasedFile :: "FileMetadata \<Rightarrow> bool" where
  "isTextBasedFile file \<longleftrightarrow>
     (case getExtension file of None \<Rightarrow> [] | Some ext \<Rightarrow> ext) \<in> set
       [''md'', ''txt'', ''json'', ''yaml'', ''yml'', ''toml'', ''ini'', ''conf'', ''cfg'',
        ''config'', ''properties'', ''env'', ''ini'', ''conf'', ''cfg'', ''config'',
        ''properties'', ''env'']"

text \<open>
  \<^verbatim>\<open>getResolutionStrategy\<close>, lines 9-21.  \<^verbatim>\<open>minimatch\<close> is the glob matcher of the
  library of that name, a parameter here (path first, pattern second).  Every strategy is
  a non-empty string in the source, so \<^verbatim>\<open>matchedStrategy?.strategy || fallback\<close> takes
  the fallback exactly when no rule was found.
\<close>

definition flattenRules :: "ResolutionRule list \<Rightarrow> ResolutionRule list" where
  "flattenRules rules =
     concat (map (\<lambda>obj. map (\<lambda>g. obj\<lparr>glob := g\<rparr>) (map trim (split_on CHR '','' (glob obj))))
       rules)"

definition getResolutionStrategy ::
  "(string \<Rightarrow> string \<Rightarrow> bool) \<Rightarrow> Settings \<Rightarrow> FileMetadata \<Rightarrow> FileMetadata
     \<Rightarrow> ConflictResolutionStrategy" where
  "getResolutionStrategy minimatch settings hostF remoteF =
     (let matchedStrategy =
            find (\<lambda>rule. minimatch (path hostF) (glob rule))
              (flattenRules (resolution_strategies settings));
          defaultStrategy =
            (case matchedStrategy of
               Some rule \<Rightarrow> strategy rule
             | None \<Rightarrow> fallback_conflict_resolution_strategy settings)
      in if isTextBasedFile hostF then Resolve else defaultStrategy)"

text \<open>
  \<^verbatim>\<open>resolve\<close>, lines 23-28.  \<^verbatim>\<open>reconcile\<close> is the three-way merge of the library
  reconcile-text, a parameter here: \<open>reconcile original left right\<close> is the \<^verbatim>\<open>text\<close>
  of its result.
\<close>

definition resolve ::
  "(string \<Rightarrow> string \<Rightarrow> string \<Rightarrow> string) \<Rightarrow> FileMetadata \<Rightarrow> FileMetadata
     \<Rightarrow> string \<Rightarrow> string \<Rightarrow> string" where
  "resolve reconcile hostF remoteF hostFileContent remoteFileContent =
     (let oldFile = (if updatedAt hostF < updatedAt remoteF then hostFileContent else remoteFileContent);
          newFile = (if updatedAt hostF < updatedAt remoteF then remoteFileContent else hostFileContent)
      in reconcile oldFile oldFile newFile)"

section \<open>Local file system (fs.local.ts)\<close>


text \<open>
  Obsidian's \<^verbatim>\<open>Vault\<close> and its adapter belong to the obsidian library, outside the
  repository; they are given a small model here.  The vault is a table from paths to files
  (with the \<^verbatim>\<open>stat\<close> times and the content) and folders; its operations do what
  their names say and do not fail.  The two trash bins are kept as lists of paths, and
  \<open>system_trash_available\<close> is what \<^verbatim>\<open>trashSystem\<close> will answer.
\<close>

datatype TAbstractFile =
  TFile (stat_mtime: int) (stat_ctime: int) (content: ArrayBuffer)
| TFolder

record Vault =
  entries :: "string \<Rightarrow> TAbstractFile option"
  local_trash :: "string list"
  system_trash :: "string list"
  system_trash_available :: bool

definition getAbstractFileByPath :: "Vault \<Rightarrow> string \<Rightarrow> TAbstractFile option" where
  "getAbstractFileByPath v p = entries v p"

definition createFolder :: "string \<Rightarrow> Vault \<Rightarrow> Vault" where
  "createFolder p v = v\<lparr>entries := (entries v)(p \<mapsto> TFolder)\<rparr>"

definition writeBinary :: "string \<Rightarrow> ArrayBuffer \<Rightarrow> int \<Rightarrow> int \<Rightarrow> Vault \<Rightarrow> Vault" where
  "writeBinary p buffer mtime ctime v = v\<lparr>entries := (entries v)(p \<mapsto> TFile mtime ctime buffer)\<rparr>"

definition trashLocal :: "string \<Rightarrow> Vault \<Rightarrow> Vault" where
  "trashLocal p v = v\<lparr>entries := (entries v)(p := None), local_trash := local_trash v @ [p]\<rparr>"

definition trashSystem :: "string \<Rightarrow> Vault \<Rightarrow> bool \<times> Vault" where
  "trashSystem p v =
     (if system_trash_available v
      then (True, v\<lparr>entries := (entries v)(p := None), system_trash := system_trash v @ [p]\<rparr>)
      else (False, v))"

datatype DeleteTarget = Obsidian | System

text \<open>The fields of \<^verbatim>\<open>LocalFileSystem\<close> that \<^verbatim>\<open>update\<close> and \<^verbatim>\<open>remove\<close> use.\<close>

record LocalFileSystem =
  vault :: Vault
  deleteToWhere :: DeleteTarget

text \<open>
  \<^verbatim>\<open>mkdirpInVault\<close>, lines 86-98: the loop over the non-empty parts of the path, with
  \<^verbatim>\<open>currentPath\<close> as its running state.
\<close>

fun mkdirpLoop :: "string list \<Rightarrow> string \<Rightarrow> Vault \<Rightarrow> Vault" where
  "mkdirpLoop [] currentPath v = v"
| "mkdirpLoop (part # parts) currentPath v =
     (let currentPath' = (if currentPath \<noteq> [] then currentPath @ ''/'' @ part else part);
          exists = getAbstractFileByPath v currentPath'
      in mkdirpLoop parts currentPath'
           (if exists = None then createFolder currentPath' v else v))"

definition mkdirpInVault :: "string \<Rightarrow> Vault \<Rightarrow> Vault" where
  "mkdirpInVault p v =
     (let pathParts = filter (\<lambda>part. length part > 0) (split_on CHR ''/'' p)
      in mkdirpLoop pathParts [] v)"

text \<open>\<^verbatim>\<open>getFileStats\<close>, lines 192-200: \<open>(mtime, ctime)\<close>, both zero unless a file is there.\<close>

definition getFileStats :: "string \<Rightarrow> Vault \<Rightarrow> int \<times> int" where
  "getFileStats p v =
     (case getAbstractFileByPath v p of
        Some (TFile mtime ctime buffer) \<Rightarrow> (mtime, ctime)
      | _ \<Rightarrow> (0, 0))"

text \<open>\<^verbatim>\<open>writeFile\<close>, lines 181-186.\<close>

definition writeFile :: "string \<Rightarrow> ArrayBuffer \<Rightarrow> int \<Rightarrow> int \<Rightarrow> Vault \<Rightarrow> Vault" where
  "writeFile p buffer mtime ctime v = writeBinary p buffer mtime ctime v"

text \<open>
  \<^verbatim>\<open>LocalFileSystem.update\<close>, lines 53-68.  The result is the value or the error
  thrown, with the state as the call left it (the folders are made before the check).
  \<^verbatim>\<open>ctime || newUpdatedAt\<close> takes \<open>newUpdatedAt\<close> when \<open>ctime\<close> is zero.
\<close>

definition local_update ::
  "string \<Rightarrow> ArrayBuffer \<Rightarrow> int \<Rightarrow> int \<Rightarrow> LocalFileSystem \<Rightarrow> (error + unit) \<times> LocalFileSystem" where
  "local_update p buffer previousUpdatedAt newUpdatedAt fs =
     (let parentDir = substring p 0 (lastIndexOf CHR ''/'' p);
          v1 = (if parentDir \<noteq> [] \<and> length parentDir > 0
                then mkdirpInVault parentDir (vault fs) else vault fs);
          (mtime, ctime) = getFileStats p v1
      in if mtime \<noteq> 0 \<and> mtime \<noteq> previousUpdatedAt
         then (Inl FileModifiedSinceLastSync, fs\<lparr>vault := v1\<rparr>)
         else (Inr (),
               fs\<lparr>vault := writeFile p buffer newUpdatedAt
                               (if ctime \<noteq> 0 then ctime else newUpdatedAt) v1\<rparr>))"

text \<open>
  \<^verbatim>\<open>LocalFileSystem.remove\<close>, lines 70-84; it declares two parameters, so the
  \<^verbatim>\<open>now\<close> the applier passes as third argument is dropped.
\<close>

definition local_remove ::
  "string \<Rightarrow> int \<Rightarrow> LocalFileSystem \<Rightarrow> (error + unit) \<times> LocalFileSystem" where
  "local_remove p previousUpdatedAt fs =
     (let (mtime, ctime) = getFileStats p (vault fs)
      in if mtime \<noteq> 0 \<and> mtime \<noteq> previousUpdatedAt
         then (Inl FileModifiedSinceLastSync, fs)
         else if deleteToWhere fs = Obsidian
         then (Inr (), fs\<lparr>vault := trashLocal p (vault fs)\<rparr>)
         else (case trashSystem p (vault fs) of
                 (ok, v1) \<Rightarrow>
                   if \<not> ok then (Inr (), fs\<lparr>vault := trashLocal p v1\<rparr>)
                   else (Inr (), fs\<lparr>vault := v1\<rparr>)))"

section \<open>File store interface and collaborators\<close>

text \<open>
  An asynchronous call is a function of the state of the world that gives the value
  or the error thrown, and the state the call left behind.
\<close>

type_synonym ('w, 'a) io = "'w \<Rightarrow> (error + 'a) \<times> 'w"

definition io_return :: "'a \<Rightarrow> ('w, 'a) io" where
  "io_return a = (\<lambda>w. (Inr a, w))"

definition io_lift :: "error + 'a \<Rightarrow> ('w, 'a) io" where
  "io_lift r = (\<lambda>w. (r, w))"

definition io_bind :: "('w, 'a) io \<Rightarrow> ('a \<Rightarrow> ('w, 'b) io) \<Rightarrow> ('w, 'b) io" where
  "io_bind m f = (\<lambda>w. case m w of (Inl e, w') \<Rightarrow> (Inl e, w') | (Inr a, w') \<Rightarrow> f a w')"

text \<open>
  Modelled from the spec: the abstract class \<^verbatim>\<open>FileSystem\<close> is declared in fs.ts, which
  is not among the sources.  Its five operations are those the controller calls, with the
  parameters of the file store contract; what they do is left to the instance.
\<close>

record 'w FileSystem =
  fs_getFiles :: "('w, FileMetadata list) io"
  fs_getFileContent :: "string \<Rightarrow> ('w, ArrayBuffer) io"
  fs_update :: "string \<Rightarrow> ArrayBuffer \<Rightarrow> int \<Rightarrow> int \<Rightarrow> ('w, unit) io"
  fs_remove :: "string \<Rightarrow> int \<Rightarrow> int \<Rightarrow> ('w, unit) io"
  fs_prune :: "string \<Rightarrow> ('w, unit) io"

text \<open>
  Modelled from the spec: the class \<^verbatim>\<open>Crypto\<close> is declared in crypto.ts, which is not
  among the sources.  Its four operations are functions that may throw.
\<close>

record Crypto =
  decrypt :: "ArrayBuffer \<Rightarrow> error + ArrayBuffer"
  encrypt :: "ArrayBuffer \<Rightarrow> error + ArrayBuffer"
  bufferToString :: "ArrayBuffer \<Rightarrow> error + string"
  stringToBuffer :: "string \<Rightarrow> error + ArrayBuffer"

text \<open>
  The conflict resolver as the controller sees it: the two library functions it is built
  on and the settings it reads.
\<close>

record ConflictResolver =
  resolver_minimatch :: "string \<Rightarrow> string \<Rightarrow> bool"
  resolver_reconcile :: "string \<Rightarrow> string \<Rightarrow> string \<Rightarrow> string"
  resolver_settings :: Settings

section \<open>Sync action applier (sync-controller.ts)\<close>

text \<open>\<^verbatim>\<open>handleConflict\<close>, lines 289-311.\<close>

definition handleConflict ::
  "'w FileSystem \<Rightarrow> 'w FileSystem \<Rightarrow> Crypto \<Rightarrow> ConflictResolver \<Rightarrow> FileMetadata \<Rightarrow> FileMetadata
     \<Rightarrow> ('w, ConflictResolutionStrategy \<times> ArrayBuffer option) io" where
  "handleConflict host remote crypto conflictResolver hostF remoteF =
     io_bind (fs_getFileContent host (path hostF)) (\<lambda>hostEncrypted.
     io_bind (io_lift (decrypt crypto hostEncrypted)) (\<lambda>hostFileData.
     io_bind (fs_getFileContent remote (path remoteF)) (\<lambda>remoteEncrypted.
     io_bind (io_lift (decrypt crypto remoteEncrypted)) (\<lambda>remoteFileData.
     io_bind (io_lift (bufferToString crypto hostFileData)) (\<lambda>hostFileDataString.
     io_bind (io_lift (bufferToString crypto remoteFileData)) (\<lambda>remoteFileDataString.
       let resolutionStrategy =
             getResolutionStrategy (resolver_minimatch conflictResolver)
               (resolver_settings conflictResolver) hostF remoteF
       in if resolutionStrategy = Resolve then
            let resolvedData =
                  resolve (resolver_reconcile conflictResolver) hostF remoteF
                    hostFileDataString remoteFileDataString
            in io_bind (io_lift (stringToBuffer crypto resolvedData)) (\<lambda>resolvedBuffer.
               io_bind (io_lift (encrypt crypto resolvedBuffer)) (\<lambda>updatedData.
                 io_return (resolutionStrategy, Some updatedData)))
          else io_return (resolutionStrategy, None)))))))"

text \<open>
  \<^verbatim>\<open>applySyncAction\<close>, lines 94-199.  The arguments of a call are evaluated from left
  to right, so a push reads the host content before it calls the remote's update.  The
  switch over the strategy has a \<^verbatim>\<open>default\<close> branch that throws; no value of the
  strategy type reaches it.
\<close>

function applySyncAction ::
  "'w FileSystem \<Rightarrow> 'w FileSystem \<Rightarrow> Crypto \<Rightarrow> ConflictResolver \<Rightarrow> SyncAction \<Rightarrow> int
     \<Rightarrow> ('w, unit) io" where
  "applySyncAction host remote crypto conflictResolver act now =
     (case action act of
        Prune \<Rightarrow>
          (case hostFile act of
             Some hostF \<Rightarrow> fs_prune host (path hostF)
           | None \<Rightarrow> io_return ())
      | Remove \<Rightarrow>
          io_bind
            (case remoteFile act of
               Some remoteF \<Rightarrow> fs_remove remote (path remoteF) (updatedAt remoteF) now
             | None \<Rightarrow> io_return ())
            (\<lambda>_. case hostFile act of
                    Some hostF \<Rightarrow> fs_remove host (path hostF) (updatedAt hostF) now
                  | None \<Rightarrow> io_return ())
      | Conflict \<Rightarrow>
          (case hostFile act of
             None \<Rightarrow> io_return ()
           | Some hostF \<Rightarrow>
               (case remoteFile act of
                  None \<Rightarrow> io_return ()
                | Some remoteF \<Rightarrow>
                    io_bind (handleConflict host remote crypto conflictResolver hostF remoteF)
                      (\<lambda>(resolutionStrategy, updatedData).
                         case resolutionStrategy of
                           Resolve \<Rightarrow>
                             (case updatedData of
                                Some buffer \<Rightarrow>
                                  io_bind
                                    (fs_update remote (path remoteF) buffer (updatedAt remoteF) now)
                                    (\<lambda>_. fs_update host (path hostF) buffer (updatedAt hostF) now)
                              | None \<Rightarrow> io_return ())
                         | Ignore \<Rightarrow> io_return ()
                         | Latest \<Rightarrow>
                             applySyncAction host remote crypto conflictResolver
                               (act\<lparr>action :=
                                  (if updatedAt hostF < updatedAt remoteF then Pull else Push)\<rparr>) now
                         | Oldest \<Rightarrow>
                             applySyncAction host remote crypto conflictResolver
                               (act\<lparr>action :=
                                  (if updatedAt hostF < updatedAt remoteF then Push else Pull)\<rparr>) now
                         | AlwaysPull \<Rightarrow>
                             applySyncAction host remote crypto conflictResolver
                               (act\<lparr>action := Pull\<rparr>) now
                         | AlwaysPush \<Rightarrow>
                             applySyncAction host remote crypto conflictResolver
                               (act\<lparr>action := Push\<rparr>) now)))
      | Push \<Rightarrow>
          (case hostFile act of
             Some hostF \<Rightarrow>
               io_bind (fs_getFileContent host (path hostF))
                 (\<lambda>buffer.
                    fs_update remote (path hostF) buffer
                      (case remoteFile act of
                         Some remoteF \<Rightarrow> updatedAt remoteF
                       | None \<Rightarrow> updatedAt hostF)
                      (updatedAt hostF))
           | None \<Rightarrow> io_return ())
      | Pull \<Rightarrow>
          (case remoteFile act of
             Some remoteF \<Rightarrow>
               io_bind (fs_getFileContent remote (path remoteF))
                 (\<lambda>buffer.
                    fs_update host (path remoteF) buffer
                      (case hostFile act of
                         Some hostF \<Rightarrow> updatedAt hostF
                       | None \<Rightarrow> updatedAt remoteF)
                      (updatedAt remoteF))
           | None \<Rightarrow> io_return ()))"
  by pat_completeness auto
termination
  by (relation "measure (\<lambda>(host, remote, crypto, conflictResolver, act, now).
          if action act = Conflict then 1 else 0)") (auto split: if_splits)

declare applySyncAction.simps [simp del]

section \<open>The sync pass (sync-controller.ts, sync)\<close>

text \<open>
  \<^verbatim>\<open>isFileExcluded\<close>, lines 70-92.  \<open>minimatch_dot\<close> is the library's matcher called
  with the option \<^verbatim>\<open>dot: true\<close>; \<open>None\<close> stands for a call that throws, which the
  source catches and skips.
\<close>

fun isFileExcludedLoop :: "(string \<Rightarrow> string \<Rightarrow> bool option) \<Rightarrow> string \<Rightarrow> string list \<Rightarrow> bool" where
  "isFileExcludedLoop minimatch_dot filePath [] = False"
| "isFileExcludedLoop minimatch_dot filePath (pattern # patterns) =
     (if trim pattern = [] then isFileExcludedLoop minimatch_dot filePath patterns
      else (case minimatch_dot filePath pattern of
              Some True \<Rightarrow> True
            | Some False \<Rightarrow> isFileExcludedLoop minimatch_dot filePath patterns
            | None \<Rightarrow> isFileExcludedLoop minimatch_dot filePath patterns))"

definition isFileExcluded :: "(string \<Rightarrow> string \<Rightarrow> bool option) \<Rightarrow> string \<Rightarrow> string list \<Rightarrow> bool" where
  "isFileExcluded minimatch_dot filePath excludePatterns =
     (if length excludePatterns = 0 then False
      else isFileExcludedLoop minimatch_dot filePath excludePatterns)"

text \<open>
  Lines 37-40: the exclusion setting split at the line feeds, every line trimmed and
  split at the commas, every piece trimmed.
\<close>

definition excludePatternList :: "string \<Rightarrow> string list" where
  "excludePatternList excludePatterns =
     map trim (concat (map (\<lambda>pattern. split_on CHR '','' (trim pattern))
       (split_on CHR 0x0A excludePatterns)))"

text \<open>
  Modelled from the spec: \<^verbatim>\<open>SettingsController.updateSettings\<close> is declared in
  settings-controller.ts, which is not among the sources.  It stores the fields it is
  given; the controller gives it the watermark only.
\<close>

definition updateSettings_last_synced_at :: "int \<Rightarrow> Settings \<Rightarrow> Settings" where
  "updateSettings_last_synced_at now st = st\<lparr>last_synced_at := Some now\<rparr>"

text \<open>
  The state a pass works on: the controller's private field, the settings object it
  shares with the resolver, and the state of the two stores.  The stores work on their
  own part of it.
\<close>

record 'w SyncController =
  this_last_synced_at :: int
  this_settings :: Settings
  stores :: 'w

definition on_stores :: "('w, 'a) io \<Rightarrow> ('w SyncController, 'a) io" where
  "on_stores m = (\<lambda>s. case m (stores s) of (r, w') \<Rightarrow> (r, s\<lparr>stores := w'\<rparr>))"

text \<open>The loop of lines 55-57: the first action that throws ends the pass.\<close>

fun applyActions ::
  "'w FileSystem \<Rightarrow> 'w FileSystem \<Rightarrow> Crypto \<Rightarrow> ConflictResolver \<Rightarrow> SyncAction list \<Rightarrow> int
     \<Rightarrow> ('w, unit) io" where
  "applyActions host remote crypto conflictResolver [] now = io_return ()"
| "applyActions host remote crypto conflictResolver (act # actions) now =
     io_bind (applySyncAction host remote crypto conflictResolver act now)
       (\<lambda>_. applyActions host remote crypto conflictResolver actions now)"

text \<open>
  \<^verbatim>\<open>sync\<close>, lines 24-60.  \<open>now\<close> is the value \<^verbatim>\<open>Date.now()\<close> returned;
  \<^verbatim>\<open>settings.last_synced_at || 0\<close> is zero when the setting is missing.  The
  resolver reads the controller's settings object.
\<close>

definition sync ::
  "'w FileSystem \<Rightarrow> 'w FileSystem \<Rightarrow> Crypto \<Rightarrow> (string \<Rightarrow> string \<Rightarrow> bool)
     \<Rightarrow> (string \<Rightarrow> string \<Rightarrow> string \<Rightarrow> string) \<Rightarrow> (string \<Rightarrow> string \<Rightarrow> bool option) \<Rightarrow> int
     \<Rightarrow> ('w SyncController, unit) io" where
  "sync host remote crypto mm rc minimatch_dot now s0 =
     (let s = s0\<lparr>this_last_synced_at :=
                  (case last_synced_at (this_settings s0) of Some t \<Rightarrow> t | None \<Rightarrow> 0)\<rparr>;
          excludePatterns = exclude_globs (this_settings s)
      in io_bind (on_stores (fs_getFiles host)) (\<lambda>hostFiles.
         io_bind (on_stores (fs_getFiles remote)) (\<lambda>remoteFiles.
           let filteredRemoteFiles =
                 filter (\<lambda>file. \<not> isFileExcluded minimatch_dot (path file)
                                   (excludePatternList excludePatterns)) remoteFiles;
               actions = createSyncAction hostFiles filteredRemoteFiles (this_last_synced_at s)
           in io_bind
                (on_stores (applyActions host remote crypto
                   \<lparr>resolver_minimatch = mm, resolver_reconcile = rc,
                     resolver_settings = this_settings s\<rparr> actions now))
                (\<lambda>_ s'. (Inr (), s'\<lparr>this_settings :=
                                  updateSettings_last_synced_at now (this_settings s')\<rparr>))))
           s)"

section \<open>Recording the calls to the stores\<close>

text \<open>
  To speak about which store operations a run invokes and in which order, a store is
  wrapped so that every call is appended to a log before it is handed on; the wrapped
  store behaves as the one inside.
\<close>

datatype Side = HostSide | RemoteSide

datatype StoreCall =
  CallGetFiles
| CallGetFileContent string
| CallUpdate string ArrayBuffer int int
| CallRemove string int int
| CallPrune string

type_synonym CallLog = "(Side \<times> StoreCall) list"

definition record_call :: "Side \<times> StoreCall \<Rightarrow> ('w, 'a) io \<Rightarrow> ('w \<times> CallLog, 'a) io" where
  "record_call c m = (\<lambda>(w, log). case m w of (r, w') \<Rightarrow> (r, (w', log @ [c])))"

definition recording :: "Side \<Rightarrow> 'w FileSystem \<Rightarrow> ('w \<times> CallLog) FileSystem" where
  "recording side fs =
     \<lparr>fs_getFiles = record_call (side, CallGetFiles) (fs_getFiles fs),
      fs_getFileContent = (\<lambda>p. record_call (side, CallGetFileContent p) (fs_getFileContent fs p)),
      fs_update = (\<lambda>p buffer previousUpdatedAt newUpdatedAt.
         record_call (side, CallUpdate p buffer previousUpdatedAt newUpdatedAt)
           (fs_update fs p buffer previousUpdatedAt newUpdatedAt)),
      fs_remove = (\<lambda>p previousUpdatedAt now.
         record_call (side, CallRemove p previousUpdatedAt now) (fs_remove fs p previousUpdatedAt now)),
      fs_prune = (\<lambda>p. record_call (side, CallPrune p) (fs_prune fs p))\<rparr>"

text \<open>The calls a single action makes, from an empty log.\<close>

definition actionCalls ::
  "'w FileSystem \<Rightarrow> 'w FileSystem \<Rightarrow> Crypto \<Rightarrow> ConflictResolver \<Rightarrow> SyncAction \<Rightarrow> int \<Rightarrow> 'w \<Rightarrow> CallLog" where
  "actionCalls host remote crypto conflictResolver act now w =
     snd (snd (applySyncAction (recording HostSide host) (recording RemoteSide remote)
                 crypto conflictResolver act now (w, [])))"

text \<open>
  A store double for the examples: it lists \<open>files\<close>, reads \<open>buffer\<close> at every path, and
  has every update, remove and prune end in \<open>outcome\<close>.
\<close>

definition constStore :: "FileMetadata list \<Rightarrow> ArrayBuffer \<Rightarrow> error + unit \<Rightarrow> 'w FileSystem" where
  "constStore files buffer outcome =
     \<lparr>fs_getFiles = io_return files,
      fs_getFileContent = (\<lambda>p. io_return buffer),
      fs_update = (\<lambda>p b previousUpdatedAt newUpdatedAt. io_lift outcome),
      fs_remove = (\<lambda>p previousUpdatedAt now. io_lift outcome),
      fs_prune = (\<lambda>p. io_lift outcome)\<rparr>"

text \<open>
  For the proofs about logs: a computation \<^emph>\<open>only calls\<close> \<open>Q\<close> when it extends the log,
  whatever it was, by calls that satisfy \<open>Q\<close>.
\<close>

definition onlyCalls :: "(Side \<times> StoreCall \<Rightarrow> bool) \<Rightarrow> ('w \<times> CallLog, 'a) io \<Rightarrow> bool" where
  "onlyCalls Q m \<longleftrightarrow>
     (\<forall>w log. \<exists>calls. snd (snd (m (w, log))) = log @ calls \<and> list_all Q calls)"

text \<open>A cipher double for the examples: every operation hands its argument back.\<close>

definition plainCrypto :: Crypto where
  "plainCrypto = \<lparr>decrypt = Inr, encrypt = Inr, bufferToString = Inr, stringToBuffer = Inr\<rparr>"

text \<open>
  A resolver double for the examples: a pattern matches the path equal to it, the merge
  keeps the right-hand text, and the settings hold no rule and the given fallback.
\<close>

definition plainResolver :: "ConflictResolutionStrategy \<Rightarrow> ConflictResolver" where
  "plainResolver fallback =
     \<lparr>resolver_minimatch = (\<lambda>p g. p = g),
      resolver_reconcile = (\<lambda>original left right. right),
      resolver_settings =
        \<lparr>last_synced_at = None, exclude_globs = [], resolution_strategies = [],
         fallback_conflict_resolution_strategy = fallback, sync_internal_files = False\<rparr>\<rparr>"

section \<open>The plan, path by path\<close>

text \<open>
  What the four loops of \<^verbatim>\<open>createSyncAction\<close> decide for one path, given the records
  the two snapshots hold for it: one function per loop, in the order of the loops, the
  first that decides wins.  The properties of the planner show that the plan is these
  decisions when no snapshot holds two records for a path.
\<close>

definition orElse :: "'a option \<Rightarrow> 'a option \<Rightarrow> 'a option" where
  "orElse a b = (case a of Some x \<Rightarrow> Some x | None \<Rightarrow> b)"

definition remoteDeletedChoice :: "FileMetadata option \<Rightarrow> FileMetadata option \<Rightarrow> SyncAction option" where
  "remoteDeletedChoice h r =
     (case r of
        None \<Rightarrow> None
      | Some remoteF \<Rightarrow>
          if deleted remoteF then
            (case h of
               None \<Rightarrow> None
             | Some hostF \<Rightarrow>
                 Some (createAction (Some hostF) (Some remoteF)
                   (if deleted hostF then Prune
                    else if createdAt hostF < deletedAt remoteF then Remove else Push)))
          else None)"

definition hostDeletedChoice :: "FileMetadata option \<Rightarrow> FileMetadata option \<Rightarrow> SyncAction option" where
  "hostDeletedChoice h r =
     (case h of
        None \<Rightarrow> None
      | Some hostF \<Rightarrow>
          if deleted hostF then
            (case r of
               None \<Rightarrow> Some (createAction (Some hostF) None Prune)
             | Some remoteF \<Rightarrow>
                 if deleted remoteF then None
                 else Some (createAction (Some hostF) (Some remoteF)
                        (if createdAt remoteF < deletedAt hostF then Remove else Pull)))
          else None)"

definition hostModifiedChoice ::
  "int \<Rightarrow> FileMetadata option \<Rightarrow> FileMetadata option \<Rightarrow> SyncAction option" where
  "hostModifiedChoice w h r =
     (case h of
        None \<Rightarrow> None
      | Some hostF \<Rightarrow>
          if deleted hostF then None
          else (case r of
                  None \<Rightarrow> Some (createAction (Some hostF) None Push)
                | Some remoteF \<Rightarrow>
                    if updatedAt remoteF < updatedAt hostF
                    then Some (createAction (Some hostF) (Some remoteF) Push)
                    else if updatedAt remoteF > w
                    then Some (createAction (Some hostF) (Some remoteF) Conflict)
                    else None))"

definition remoteModifiedChoice ::
  "int \<Rightarrow> FileMetadata option \<Rightarrow> FileMetadata option \<Rightarrow> SyncAction option" where
  "remoteModifiedChoice w h r =
     (case r of
        None \<Rightarrow> None
      | Some remoteF \<Rightarrow>
          if deleted remoteF then None
          else (case h of
                  None \<Rightarrow> Some (createAction None (Some remoteF) Pull)
                | Some hostF \<Rightarrow>
                    if updatedAt hostF < updatedAt remoteF
                    then Some (createAction (Some hostF) (Some remoteF) Pull)
                    else if updatedAt hostF > w
                    then Some (createAction (Some hostF) (Some remoteF) Conflict)
                    else None))"

definition pathAction ::
  "FileMetadata option \<Rightarrow> FileMetadata option \<Rightarrow> int \<Rightarrow> SyncAction option" where
  "pathAction h r w =
     orElse (remoteDeletedChoice h r)
       (orElse (hostDeletedChoice h r)
          (orElse (hostModifiedChoice w h r) (remoteModifiedChoice w h r)))"

section \<open>The file store contract\<close>

text \<open>
  What a pass needs from the two stores to leave them in agreement, for stores whose
  listing is \<open>hostList\<close> and \<open>remoteList\<close>: an enumeration that succeeds returns the
  listing; reading content changes no listing; an update that succeeds leaves a live
  record with the new timestamp at its path; a host prune that succeeds leaves no record
  at a path that held tombstones only; and each of them leaves every other path, and the other store, as they were.
\<close>

definition writtenAt :: "string \<Rightarrow> int \<Rightarrow> FileMetadata list \<Rightarrow> FileMetadata list \<Rightarrow> bool" where
  "writtenAt p t before after \<longleftrightarrow>
     (distinct (map path before) \<longrightarrow> distinct (map path after)) \<and>
     (\<exists>f. getFile after p = Some f \<and> \<not> deleted f \<and> updatedAt f = t) \<and>
     (\<forall>q. q \<noteq> p \<longrightarrow> getFile after q = getFile before q)"

definition prunedAt :: "string \<Rightarrow> FileMetadata list \<Rightarrow> FileMetadata list \<Rightarrow> bool" where
  "prunedAt p before after \<longleftrightarrow>
     (distinct (map path before) \<longrightarrow> distinct (map path after)) \<and>
     ((\<forall>f \<in> set before. path f = p \<longrightarrow> deleted f) \<longrightarrow> getFile after p = None) \<and>
     (\<forall>q. q \<noteq> p \<longrightarrow> getFile after q = getFile before q)"

definition storeContract ::
  "'w FileSystem \<Rightarrow> 'w FileSystem \<Rightarrow> ('w \<Rightarrow> FileMetadata list) \<Rightarrow> ('w \<Rightarrow> FileMetadata list) \<Rightarrow> bool" where
  "storeContract host remote hostList remoteList \<longleftrightarrow>
     (\<forall>w files. fst (fs_getFiles host w) = Inr files \<longrightarrow> files = hostList w) \<and>
     (\<forall>w files. fst (fs_getFiles remote w) = Inr files \<longrightarrow> files = remoteList w) \<and>
     (\<forall>p w. hostList (snd (fs_getFileContent host p w)) = hostList w \<and>
            remoteList (snd (fs_getFileContent host p w)) = remoteList w) \<and>
     (\<forall>p w. hostList (snd (fs_getFileContent remote p w)) = hostList w \<and>
            remoteList (snd (fs_getFileContent remote p w)) = remoteList w) \<and>
     (\<forall>p buffer prev t w w'. fs_update host p buffer prev t w = (Inr (), w') \<longrightarrow>
            writtenAt p t (hostList w) (hostList w') \<and> remoteList w' = remoteList w) \<and>
     (\<forall>p buffer prev t w w'. fs_update remote p buffer prev t w = (Inr (), w') \<longrightarrow>
            writtenAt p t (remoteList w) (remoteList w') \<and> hostList w' = hostList w) \<and>
     (\<forall>p w w'. fs_prune host p w = (Inr (), w') \<longrightarrow>
            prunedAt p (hostList w) (hostList w') \<and> remoteList w' = remoteList w)"

text \<open>
  For the proofs: a step from \<open>w\<close> to \<open>w'\<close> \<^emph>\<open>touches only\<close> \<open>p\<close> when both listings hold
  the same record as before at every other path and stay free of duplicates.
\<close>

definition touchesOnly ::
  "string \<Rightarrow> ('w \<Rightarrow> FileMetadata list) \<Rightarrow> ('w \<Rightarrow> FileMetadata list) \<Rightarrow> 'w \<Rightarrow> 'w \<Rightarrow> bool" where
  "touchesOnly p hostList remoteList w w' \<longleftrightarrow>
     (\<forall>q. q \<noteq> p \<longrightarrow> getFile (hostList w') q = getFile (hostList w) q \<and>
                    getFile (remoteList w') q = getFile (remoteList w) q) \<and>
     (distinct (map path (hostList w)) \<longrightarrow> distinct (map path (hostList w'))) \<and>
     (distinct (map path (remoteList w)) \<longrightarrow> distinct (map path (remoteList w')))"

section \<open>A store kept in memory\<close>

text \<open>
  Modelled from the spec: the remote store (fs.remote.ts) and the local store's record of
  deletions (fs.local.file-history.ts) are not among the sources.  This store keeps the
  file store contract in memory: one record per path, the staleness check of
  \<^verbatim>\<open>update\<close> and \<^verbatim>\<open>remove\<close> against the recorded modification time (zero for a
  path that holds no live file), a tombstone left by \<^verbatim>\<open>remove\<close>, and \<^verbatim>\<open>prune\<close>
  dropping the tombstone of a path.  It serves as the store of the examples.
\<close>

record MemStore =
  mem_files :: "FileMetadata list"
  mem_contents :: "string \<Rightarrow> ArrayBuffer"

definition putFile :: "FileMetadata \<Rightarrow> FileMetadata list \<Rightarrow> FileMetadata list" where
  "putFile file fs =
     (if getFile fs (path file) = None then fs @ [file]
      else map (\<lambda>f. if path f = path file then file else f) fs)"

definition mem_mtime :: "MemStore \<Rightarrow> string \<Rightarrow> int" where
  "mem_mtime st p =
     (case getFile (mem_files st) p of
        Some f \<Rightarrow> if deleted f then 0 else updatedAt f
      | None \<Rightarrow> 0)"

definition mem_getFiles :: "(MemStore, FileMetadata list) io" where
  "mem_getFiles = (\<lambda>st. (Inr (mem_files st), st))"

definition mem_getFileContent :: "string \<Rightarrow> (MemStore, ArrayBuffer) io" where
  "mem_getFileContent p = (\<lambda>st. (Inr (mem_contents st p), st))"

definition mem_update :: "string \<Rightarrow> ArrayBuffer \<Rightarrow> int \<Rightarrow> int \<Rightarrow> (MemStore, unit) io" where
  "mem_update p buffer previousUpdatedAt newUpdatedAt =
     (\<lambda>st. if mem_mtime st p \<noteq> 0 \<and> mem_mtime st p \<noteq> previousUpdatedAt
           then (Inl FileModifiedSinceLastSync, st)
           else (Inr (),
                 st\<lparr>mem_files :=
                      putFile \<lparr>path = p, size_bytes = int (length buffer),
                               createdAt =
                                 (case getFile (mem_files st) p of
                                    Some f \<Rightarrow> if deleted f then newUpdatedAt else createdAt f
                                  | None \<Rightarrow> newUpdatedAt),
                               updatedAt = newUpdatedAt, deletedAt = newUpdatedAt,
                               deleted = False\<rparr> (mem_files st),
                    mem_contents := (mem_contents st)(p := buffer)\<rparr>))"

definition mem_remove :: "string \<Rightarrow> int \<Rightarrow> int \<Rightarrow> (MemStore, unit) io" where
  "mem_remove p previousUpdatedAt now =
     (\<lambda>st. if mem_mtime st p \<noteq> 0 \<and> mem_mtime st p \<noteq> previousUpdatedAt
           then (Inl FileModifiedSinceLastSync, st)
           else (Inr (),
                 st\<lparr>mem_files :=
                      putFile \<lparr>path = p, size_bytes = 0, createdAt = now, updatedAt = now,
                               deletedAt = now, deleted = True\<rparr> (mem_files st)\<rparr>))"

definition mem_prune :: "string \<Rightarrow> (MemStore, unit) io" where
  "mem_prune p =
     (\<lambda>st. (Inr (), st\<lparr>mem_files := filter (\<lambda>f. \<not> (path f = p \<and> deleted f)) (mem_files st)\<rparr>))"

text \<open>The host is the first store of a pair, the remote the second.\<close>

definition on_host :: "(MemStore, 'a) io \<Rightarrow> (MemStore \<times> MemStore, 'a) io" where
  "on_host m = (\<lambda>(h, r). case m h of (x, h') \<Rightarrow> (x, (h', r)))"

definition on_remote :: "(MemStore, 'a) io \<Rightarrow> (MemStore \<times> MemStore, 'a) io" where
  "on_remote m = (\<lambda>(h, r). case m r of (x, r') \<Rightarrow> (x, (h, r')))"

definition memHost :: "(MemStore \<times> MemStore) FileSystem" where
  "memHost =
     \<lparr>fs_getFiles = on_host mem_getFiles,
      fs_getFileContent = (\<lambda>p. on_host (mem_getFileContent p)),
      fs_update = (\<lambda>p buffer previousUpdatedAt newUpdatedAt.
         on_host (mem_update p buffer previousUpdatedAt newUpdatedAt)),
      fs_remove = (\<lambda>p previousUpdatedAt now. on_host (mem_remove p previousUpdatedAt now)),
      fs_prune = (\<lambda>p. on_host (mem_prune p))\<rparr>"

definition memRemote :: "(MemStore \<times> MemStore) FileSystem" where
  "memRemote =
     \<lparr>fs_getFiles = on_remote mem_getFiles,
      fs_getFileContent = (\<lambda>p. on_remote (mem_getFileContent p)),
      fs_update = (\<lambda>p buffer previousUpdatedAt newUpdatedAt.
         on_remote (mem_update p buffer previousUpdatedAt newUpdatedAt)),
      fs_remove = (\<lambda>p previousUpdatedAt now. on_remote (mem_remove p previousUpdatedAt now)),
      fs_prune = (\<lambda>p. on_remote (mem_prune p))\<rparr>"

section \<open>Properties of the planner\<close>

lemma getFile_path: "getFile files p = Some f \<Longrightarrow> path f = p \<and> f \<in> set files"
  unfolding getFile_def by (induction files) (auto split: if_splits)

lemma getFile_None: "getFile files p = None \<longleftrightarrow> (\<forall>f \<in> set files. path f \<noteq> p)"
  unfolding getFile_def by (induction files) auto

lemma getFile_distinct:
  "distinct (map path files) \<Longrightarrow> f \<in> set files \<Longrightarrow> getFile files (path f) = Some f"
  unfolding getFile_def by (induction files) force+

lemma map_of_set_action:
  "map_of (set_action k v m) p =
     (case map_of m p of Some a \<Rightarrow> Some a | None \<Rightarrow> if k = p then Some v else None)"
  by (auto simp: set_action_def map_add_def split: option.splits)

lemma wf_set_action:
  "wfActionMap m \<Longrightarrow> actionPaths v = {k} \<Longrightarrow> wfActionMap (set_action k v m)"
  unfolding wfActionMap_def set_action_def
  by (cases "map_of m k") (auto simp: map_of_eq_None_iff)

lemma actionPaths_createAction:
  "actionPaths (createAction h r k) = path ` (set_option h \<union> set_option r)"
  by (simp add: actionPaths_def createAction_def)

lemma set_action_keyed:
  "k = path f \<Longrightarrow> actionPaths v = {path f} \<Longrightarrow>
     set_action k v m = m \<or>
     (\<exists>v'. actionPaths v' = {path f} \<and> set_action k v m = set_action (path f) v' m)"
  by blast

lemma keyed_remoteDeletedStep: "keyedStep (remoteDeletedStep hostFiles)"
  unfolding keyedStep_def
proof (intro allI)
  fix f m
  show "remoteDeletedStep hostFiles f m = m \<or>
    (\<exists>v. actionPaths v = {path f} \<and> remoteDeletedStep hostFiles f m = set_action (path f) v m)"
  proof (cases "getFile hostFiles (path f)")
    case None
    then show ?thesis by (simp add: remoteDeletedStep_def)
  next
    case (Some h)
    then have heq: "path h = path f" by (simp add: getFile_path)
    show ?thesis
      unfolding remoteDeletedStep_def Some option.case
      by (cases "deleted h"; cases "createdAt h < deletedAt f"; simp only: if_True if_False;
          rule set_action_keyed; simp add: actionPaths_createAction heq)
  qed
qed

lemma keyed_hostDeletedStep: "keyedStep (hostDeletedStep remoteFiles)"
  unfolding keyedStep_def
proof (intro allI)
  fix f m
  show "hostDeletedStep remoteFiles f m = m \<or>
    (\<exists>v. actionPaths v = {path f} \<and> hostDeletedStep remoteFiles f m = set_action (path f) v m)"
  proof (cases "getFile remoteFiles (path f)")
    case None
    show ?thesis
      unfolding hostDeletedStep_def None option.case
      by (rule set_action_keyed) (simp_all add: actionPaths_createAction)
  next
    case (Some r)
    then have heq: "path r = path f" by (simp add: getFile_path)
    show ?thesis
      unfolding hostDeletedStep_def Some option.case
      by (cases "deleted r"; cases "createdAt r < deletedAt f"; simp only: if_True if_False;
          ((rule disjI1, rule refl) | (rule set_action_keyed; simp add: actionPaths_createAction heq)))
  qed
qed

lemma keyed_hostModifiedStep: "keyedStep (hostModifiedStep remoteFiles w)"
  unfolding keyedStep_def
proof (intro allI)
  fix f m
  show "hostModifiedStep remoteFiles w f m = m \<or>
    (\<exists>v. actionPaths v = {path f} \<and> hostModifiedStep remoteFiles w f m = set_action (path f) v m)"
  proof (cases "getFile remoteFiles (path f)")
    case None
    show ?thesis
      unfolding hostModifiedStep_def None option.case
      by (rule set_action_keyed) (simp_all add: actionPaths_createAction)
  next
    case (Some r)
    then have heq: "path r = path f" by (simp add: getFile_path)
    show ?thesis
      unfolding hostModifiedStep_def Some option.case
      by (cases "updatedAt r < updatedAt f"; cases "updatedAt r > w"; simp only: if_True if_False;
          ((rule disjI1, rule refl) | (rule set_action_keyed; simp add: actionPaths_createAction heq)))
  qed
qed

lemma keyed_remoteModifiedStep: "keyedStep (remoteModifiedStep hostFiles w)"
  unfolding keyedStep_def
proof (intro allI)
  fix f m
  show "remoteModifiedStep hostFiles w f m = m \<or>
    (\<exists>v. actionPaths v = {path f} \<and> remoteModifiedStep hostFiles w f m = set_action (path f) v m)"
  proof (cases "getFile hostFiles (path f)")
    case None
    show ?thesis
      unfolding remoteModifiedStep_def None option.case
      by (rule set_action_keyed) (simp_all add: actionPaths_createAction)
  next
    case (Some h)
    then have heq: "path h = path f" by (simp add: getFile_path)
    show ?thesis
      unfolding remoteModifiedStep_def Some option.case
      by (cases "updatedAt h < updatedAt f"; cases "updatedAt h > w"; simp only: if_True if_False;
          ((rule disjI1, rule refl) | (rule set_action_keyed; simp add: actionPaths_createAction heq)))
  qed
qed

lemma keyedStep_cases:
  assumes "keyedStep stp"
  obtains (same) "stp f m = m"
    | (ins) v where "actionPaths v = {path f}" and "stp f m = set_action (path f) v m"
  using assms unfolding keyedStep_def by blast

lemma keyed_wf_step:
  assumes "keyedStep stp" and "wfActionMap m"
  shows "wfActionMap (stp f m)"
proof (cases rule: keyedStep_cases[OF assms(1), of f m])
  case 1
  then show ?thesis using assms(2) by simp
next
  case (2 v)
  then show ?thesis using assms(2) by (simp add: wf_set_action)
qed

lemma keyed_wf_fold:
  "keyedStep stp \<Longrightarrow> wfActionMap m \<Longrightarrow> wfActionMap (fold stp fs m)"
  by (induction fs arbitrary: m) (simp_all add: keyed_wf_step)

lemma keyed_step_keep:
  assumes "keyedStep stp" and "map_of m p = Some a"
  shows "map_of (stp f m) p = Some a"
proof (cases rule: keyedStep_cases[OF assms(1), of f m])
  case 1
  then show ?thesis using assms(2) by simp
next
  case (2 v)
  then show ?thesis using assms(2) by (simp add: map_of_set_action)
qed

lemma keyed_fold_keep:
  "keyedStep stp \<Longrightarrow> map_of m p = Some a \<Longrightarrow> map_of (fold stp fs m) p = Some a"
  by (induction fs arbitrary: m) (simp_all add: keyed_step_keep)

lemma keyed_step_other:
  assumes "keyedStep stp" and "path f \<noteq> p"
  shows "map_of (stp f m) p = map_of m p"
proof (cases rule: keyedStep_cases[OF assms(1), of f m])
  case 1
  then show ?thesis by simp
next
  case (2 v)
  then show ?thesis using assms(2) by (simp add: map_of_set_action split: option.split)
qed

lemma keyed_fold_skip:
  assumes "keyedStep stp"
    and "\<And>f m. f \<in> set fs \<Longrightarrow> path f = p \<Longrightarrow> stp f m = m"
  shows "map_of (fold stp fs m) p = map_of m p"
  using assms(2)
proof (induction fs arbitrary: m)
  case Nil
  then show ?case by simp
next
  case (Cons f fs)
  have "map_of (stp f m) p = map_of m p"
  proof (cases "path f = p")
    case True
    then show ?thesis using Cons.prems[of f m] by simp
  next
    case False
    then show ?thesis by (rule keyed_step_other[OF assms(1)])
  qed
  moreover have "map_of (fold stp fs (stp f m)) p = map_of (stp f m) p"
    by (rule Cons.IH) (simp add: Cons.prems)
  ultimately show ?case by simp
qed

lemma actionsFor_wf:
  "wfActionMap m \<Longrightarrow>
     actionsFor p (map snd m) = (case map_of m p of None \<Rightarrow> [] | Some a \<Rightarrow> [a])"
proof (induction m)
  case Nil
  then show ?case by (simp add: actionsFor_def)
next
  case (Cons x m)
  obtain k a where x: "x = (k, a)" by (cases x)
  from Cons.prems have wf: "wfActionMap m" and ka: "actionPaths a = {k}"
    and nk: "k \<notin> fst ` set m"
    by (auto simp: wfActionMap_def x)
  have IH: "actionsFor p (map snd m) = (case map_of m p of None \<Rightarrow> [] | Some a \<Rightarrow> [a])"
    using Cons.IH wf by simp
  show ?case
  proof (cases "k = p")
    case True
    then have "map_of m p = None" using nk by (simp add: map_of_eq_None_iff)
    then show ?thesis using IH True ka by (simp add: actionsFor_def x)
  next
    case False
    then show ?thesis using IH ka by (simp add: actionsFor_def x)
  qed
qed

lemma wf_syncActionMap: "wfActionMap (syncActionMap hostFiles remoteFiles w)"
  unfolding syncActionMap_def
  by (intro keyed_wf_fold keyed_remoteDeletedStep keyed_hostDeletedStep
        keyed_hostModifiedStep keyed_remoteModifiedStep) (simp add: wfActionMap_def)

lemma actionsFor_createSyncAction:
  "actionsFor p (createSyncAction hostFiles remoteFiles w) =
     (case map_of (syncActionMap hostFiles remoteFiles w) p of None \<Rightarrow> [] | Some a \<Rightarrow> [a])"
  unfolding createSyncAction_def by (rule actionsFor_wf[OF wf_syncActionMap])


lemma distinct_path_eq:
  "distinct (map path fs) \<Longrightarrow> f \<in> set fs \<Longrightarrow> g \<in> set fs \<Longrightarrow> path f = path g \<Longrightarrow> f = g"
  by (simp add: distinct_map inj_on_def)

lemma keyed_fold_set:
  assumes k: "keyedStep stp"
    and d: "distinct (map path fs)"
    and f: "f \<in> set fs"
    and m: "map_of m (path f) = None"
    and s: "\<And>m'. map_of m' (path f) = None \<Longrightarrow> map_of (stp f m') (path f) = Some a"
  shows "map_of (fold stp fs m) (path f) = Some a"
proof -
  from f obtain xs ys where fs: "fs = xs @ f # ys" by (auto dest: split_list)
  have nx: "\<And>g. g \<in> set xs \<Longrightarrow> path g \<noteq> path f"
    using d unfolding fs by (auto simp: image_iff)
  have "map_of (fold stp xs m) (path f) = map_of m (path f)"
    by (rule keyed_fold_skip[OF k]) (simp add: nx)
  then have "map_of (stp f (fold stp xs m)) (path f) = Some a"
    using m s by simp
  then have "map_of (fold stp ys (stp f (fold stp xs m))) (path f) = Some a"
    by (rule keyed_fold_keep[OF k])
  then show ?thesis by (simp add: fs)
qed

lemma remoteDeletedStep_sets:
  assumes "getFile hostFiles (path r) = Some h" and "map_of m (path r) = None"
  shows "map_of (remoteDeletedStep hostFiles r m) (path r) =
     Some (createAction (Some h) (Some r)
       (if deleted h then Prune else if createdAt h < deletedAt r then Remove else Push))"
proof -
  have "path h = path r" using assms(1) by (simp add: getFile_path)
  then show ?thesis
    using assms by (simp add: remoteDeletedStep_def map_of_set_action)
qed


lemma remote_tombstone_some:
  assumes dist: "distinct (map path remoteFiles)"
    and rin: "r \<in> set remoteFiles"
    and del: "deleted r"
    and host: "getFile hostFiles (path r) = Some h"
  shows "map_of (syncActionMap hostFiles remoteFiles w) (path r) =
     Some (createAction (Some h) (Some r)
       (if deleted h then Prune else if createdAt h < deletedAt r then Remove else Push))"
proof -
  let ?p = "path r"
  let ?a = "createAction (Some h) (Some r)
       (if deleted h then Prune else if createdAt h < deletedAt r then Remove else Push)"
  let ?m1 = "fold (remoteDeletedStep hostFiles) (filter deleted remoteFiles) []"
  let ?m2 = "fold (hostDeletedStep remoteFiles) (filter deleted hostFiles) ?m1"
  let ?m3 = "fold (hostModifiedStep remoteFiles w) (filter (\<lambda>file. \<not> deleted file) hostFiles) ?m2"
  have 1: "map_of ?m1 ?p = Some ?a"
  proof (rule keyed_fold_set[OF keyed_remoteDeletedStep])
    show "distinct (map path (filter deleted remoteFiles))"
      using dist by (rule distinct_map_filter)
    show "r \<in> set (filter deleted remoteFiles)" using rin del by simp
    show "map_of [] ?p = None" by simp
    show "\<And>m'. map_of m' ?p = None \<Longrightarrow> map_of (remoteDeletedStep hostFiles r m') ?p = Some ?a"
      by (rule remoteDeletedStep_sets[OF host])
  qed
  have 2: "map_of ?m2 ?p = Some ?a"
    by (rule keyed_fold_keep[OF keyed_hostDeletedStep 1])
  have 3: "map_of ?m3 ?p = Some ?a"
    by (rule keyed_fold_keep[OF keyed_hostModifiedStep 2])
  show ?thesis
    unfolding syncActionMap_def by (rule keyed_fold_keep[OF keyed_remoteModifiedStep 3])
qed




lemma hostModifiedStep_same:
  assumes "getFile remoteFiles (path h) = Some r"
    and "updatedAt h = updatedAt r" and "updatedAt h \<le> w"
  shows "hostModifiedStep remoteFiles w h m = m"
  using assms by (simp add: hostModifiedStep_def)

lemma remoteModifiedStep_same:
  assumes "getFile hostFiles (path r) = Some h"
    and "updatedAt h = updatedAt r" and "updatedAt h \<le> w"
  shows "remoteModifiedStep hostFiles w r m = m"
  using assms by (simp add: remoteModifiedStep_def)

lemma hostModifiedStep_conflict:
  assumes "getFile remoteFiles (path h) = Some r"
    and "updatedAt h = updatedAt r" and "w < updatedAt h"
    and "map_of m (path h) = None"
  shows "map_of (hostModifiedStep remoteFiles w h m) (path h) =
           Some (createAction (Some h) (Some r) Conflict)"
  using assms by (simp add: hostModifiedStep_def map_of_set_action)

lemma identical_live_map:
  assumes dh: "distinct (map path hostFiles)"
    and dr: "distinct (map path remoteFiles)"
    and hin: "h \<in> set hostFiles"
    and rin: "r \<in> set remoteFiles"
    and p: "path h = path r"
    and lh: "\<not> deleted h"
    and lr: "\<not> deleted r"
    and u: "updatedAt h = updatedAt r"
  shows "map_of (syncActionMap hostFiles remoteFiles w) (path h) =
           (if updatedAt h \<le> w then None else Some (createAction (Some h) (Some r) Conflict))"
proof -
  let ?p = "path h"
  let ?m1 = "fold (remoteDeletedStep hostFiles) (filter deleted remoteFiles) []"
  let ?m2 = "fold (hostDeletedStep remoteFiles) (filter deleted hostFiles) ?m1"
  let ?m3 = "fold (hostModifiedStep remoteFiles w) (filter (\<lambda>file. \<not> deleted file) hostFiles) ?m2"
  have gr: "getFile remoteFiles ?p = Some r"
    using getFile_distinct[OF dr rin] p by simp
  have gh: "getFile hostFiles (path r) = Some h"
    using getFile_distinct[OF dh hin] p by simp
  have onlyh: "\<And>f. f \<in> set hostFiles \<Longrightarrow> path f = ?p \<Longrightarrow> f = h"
    using distinct_path_eq[OF dh _ hin] by simp
  have onlyr: "\<And>f. f \<in> set remoteFiles \<Longrightarrow> path f = ?p \<Longrightarrow> f = r"
    using distinct_path_eq[OF dr _ rin] p by simp
  have "map_of ?m1 ?p = map_of [] ?p"
    by (rule keyed_fold_skip[OF keyed_remoteDeletedStep]) (use onlyr lr in auto)
  then have 1: "map_of ?m1 ?p = None" by simp
  have "map_of ?m2 ?p = map_of ?m1 ?p"
    by (rule keyed_fold_skip[OF keyed_hostDeletedStep]) (use onlyh lh in auto)
  with 1 have 2: "map_of ?m2 ?p = None" by simp
  show ?thesis
  proof (cases "updatedAt h \<le> w")
    case True
    have "map_of ?m3 ?p = map_of ?m2 ?p"
    proof (rule keyed_fold_skip[OF keyed_hostModifiedStep])
      fix f m
      assume "f \<in> set (filter (\<lambda>file. \<not> deleted file) hostFiles)" and "path f = ?p"
      then have "f = h" using onlyh by simp
      then show "hostModifiedStep remoteFiles w f m = m"
        using hostModifiedStep_same[OF gr u True] by simp
    qed
    moreover have "map_of (syncActionMap hostFiles remoteFiles w) ?p = map_of ?m3 ?p"
      unfolding syncActionMap_def
    proof (rule keyed_fold_skip[OF keyed_remoteModifiedStep])
      fix f m
      assume "f \<in> set (filter (\<lambda>file. \<not> deleted file) remoteFiles)" and "path f = ?p"
      then have "f = r" using onlyr by simp
      then show "remoteModifiedStep hostFiles w f m = m"
        using remoteModifiedStep_same[OF gh u True] by simp
    qed
    ultimately show ?thesis using 2 True by simp
  next
    case False
    then have w: "w < updatedAt h" by simp
    have 3: "map_of ?m3 ?p = Some (createAction (Some h) (Some r) Conflict)"
    proof (rule keyed_fold_set[OF keyed_hostModifiedStep])
      show "distinct (map path (filter (\<lambda>file. \<not> deleted file) hostFiles))"
        using dh by (rule distinct_map_filter)
      show "h \<in> set (filter (\<lambda>file. \<not> deleted file) hostFiles)" using hin lh by simp
      show "map_of ?m2 ?p = None" by (rule 2)
      show "\<And>m'. map_of m' ?p = None \<Longrightarrow>
          map_of (hostModifiedStep remoteFiles w h m') ?p = Some (createAction (Some h) (Some r) Conflict)"
        by (rule hostModifiedStep_conflict[OF gr u w])
    qed
    have "map_of (syncActionMap hostFiles remoteFiles w) ?p =
            Some (createAction (Some h) (Some r) Conflict)"
      unfolding syncActionMap_def by (rule keyed_fold_keep[OF keyed_remoteModifiedStep 3])
    then show ?thesis using False by simp
  qed
qed

text \<open>
  Claim C1, as amended.  A path held live on both sides with the same \<open>updatedAt\<close>, in
  snapshots with at most one record per path, gets no action when that \<open>updatedAt\<close> is
  not later than the watermark; when it is later, the third loop's test
  \<^verbatim>\<open>remoteFile.updatedAt > this.last_synced_at\<close> makes it a conflict.  (The records
  of the source carry no content hash: the planner compares timestamps only.)
\<close>

theorem identical_live_plan:
  assumes "distinct (map path hostFiles)"
    and "distinct (map path remoteFiles)"
    and "h \<in> set hostFiles"
    and "r \<in> set remoteFiles"
    and "path h = path r"
    and "\<not> deleted h"
    and "\<not> deleted r"
    and "updatedAt h = updatedAt r"
  shows "actionsFor (path h) (createSyncAction hostFiles remoteFiles w) =
           (if updatedAt h \<le> w then [] else [createAction (Some h) (Some r) Conflict])"
  using identical_live_map[OF assms, of w]
  by (simp add: actionsFor_createSyncAction)

theorem identical_live_plan_witness:
  "actionsFor ''img.png''
     (createSyncAction
        [\<lparr>path = ''img.png'', size_bytes = 9, createdAt = 10, updatedAt = 200, deletedAt = 200, deleted = False\<rparr>]
        [\<lparr>path = ''img.png'', size_bytes = 9, createdAt = 10, updatedAt = 200, deletedAt = 200, deleted = False\<rparr>]
        300) = []"
  using identical_live_plan[where
      hostFiles = "[\<lparr>path = ''img.png'', size_bytes = 9, createdAt = 10, updatedAt = 200, deletedAt = 200, deleted = False\<rparr>]"
      and remoteFiles = "[\<lparr>path = ''img.png'', size_bytes = 9, createdAt = 10, updatedAt = 200, deletedAt = 200, deleted = False\<rparr>]"
      and h = "\<lparr>path = ''img.png'', size_bytes = 9, createdAt = 10, updatedAt = 200, deletedAt = 200, deleted = False\<rparr>"
      and r = "\<lparr>path = ''img.png'', size_bytes = 9, createdAt = 10, updatedAt = 200, deletedAt = 200, deleted = False\<rparr>"
      and w = 300]
  by simp

text \<open>
  The claim as first stated (no action for every watermark) fails: the same live record on
  both sides, updated at 200, with the watermark at 100, is planned as a conflict.
\<close>

theorem identical_live_plan_counterexample:
  "createSyncAction
     [\<lparr>path = ''img.png'', size_bytes = 9, createdAt = 10, updatedAt = 200, deletedAt = 200, deleted = False\<rparr>]
     [\<lparr>path = ''img.png'', size_bytes = 9, createdAt = 10, updatedAt = 200, deletedAt = 200, deleted = False\<rparr>]
     100 =
   [\<lparr>hostFile = Some \<lparr>path = ''img.png'', size_bytes = 9, createdAt = 10, updatedAt = 200, deletedAt = 200, deleted = False\<rparr>,
     remoteFile = Some \<lparr>path = ''img.png'', size_bytes = 9, createdAt = 10, updatedAt = 200, deletedAt = 200, deleted = False\<rparr>,
     action = Conflict\<rparr>]"
  by (simp add: createSyncAction_def syncActionMap_def hostModifiedStep_def remoteModifiedStep_def
        getFile_def set_action_def createAction_def)

section \<open>Properties of the string functions\<close>

lemma split_on_not_Nil: "split_on c s \<noteq> []"
  by (induction s) (auto split: list.splits)

lemma split_on_no_sep: "piece \<in> set (split_on c s) \<Longrightarrow> c \<notin> set piece"
proof (induction s arbitrary: piece)
  case Nil
  then show ?case by simp
next
  case (Cons x xs)
  then show ?case
    by (cases "split_on c xs") (auto split: if_splits)
qed

lemma split_on_join: "concat (map (\<lambda>piece. piece @ [c]) (split_on c s)) = s @ [c]"
proof (induction s)
  case Nil
  then show ?case by simp
next
  case (Cons x xs)
  then show ?case
    by (cases "split_on c xs") (auto simp: split_on_not_Nil)
qed

lemma split_on_no_occurrence: "c \<notin> set s \<Longrightarrow> split_on c s = [s]"
  by (induction s) auto

lemma split_on_two:
  "c \<in> set s \<Longrightarrow> \<exists>piece piece' pieces. split_on c s = piece # piece' # pieces"
proof (induction s)
  case Nil
  then show ?case by simp
next
  case (Cons x xs)
  show ?case
  proof (cases "x = c")
    case True
    then show ?thesis by (cases "split_on c xs") (simp_all add: split_on_not_Nil)
  next
    case False
    then have "c \<in> set xs" using Cons.prems by simp
    then obtain piece piece' pieces where "split_on c xs = piece # piece' # pieces"
      using Cons.IH by blast
    then show ?thesis using False by simp
  qed
qed

lemma last_split_on: "c \<notin> set ext \<Longrightarrow> last (split_on c (base @ c # ext)) = ext"
proof (induction base)
  case Nil
  then show ?case by (simp add: split_on_no_occurrence)
next
  case (Cons x base)
  obtain piece piece' pieces where "split_on c (base @ c # ext) = piece # piece' # pieces"
    using split_on_two[of c "base @ c # ext"] by auto
  then show ?case using Cons by simp
qed

section \<open>Properties of the conflict resolver\<close>

lemma getExtension_suffix:
  "CHR ''.'' \<notin> set ext \<Longrightarrow> path file = base @ CHR ''.'' # ext \<Longrightarrow> getExtension file = Some ext"
  by (simp add: getExtension_def split_on_not_Nil last_split_on)

lemma getExtension_no_dot:
  "CHR ''.'' \<notin> set (path file) \<Longrightarrow> getExtension file = Some (path file)"
  by (simp add: getExtension_def split_on_no_occurrence)

lemma isTextBasedFile_iff:
  "isTextBasedFile file \<longleftrightarrow>
     getExtension file \<in> Some ` set [''md'', ''txt'', ''json'', ''yaml'', ''yml'', ''toml'',
       ''ini'', ''conf'', ''cfg'', ''config'', ''properties'', ''env'']"
proof -
  obtain ext where e: "getExtension file = Some ext"
    by (auto simp: getExtension_def split_on_not_Nil Let_def)
  show ?thesis
    unfolding isTextBasedFile_def e option.case
    by (simp only: inj_image_mem_iff[OF inj_Some]) auto
qed

lemma flattenRules_patterns:
  "map (\<lambda>rule. (glob rule, strategy rule)) (flattenRules rules) =
     concat (map (\<lambda>rule. map (\<lambda>g. (trim g, strategy rule)) (split_on CHR '','' (glob rule))) rules)"
  by (induction rules) (simp_all add: flattenRules_def comp_def)

lemma strategy_of_find:
  "(case find (\<lambda>rule. P (glob rule)) rs of Some rule \<Rightarrow> strategy rule | None \<Rightarrow> d) =
   (case find (\<lambda>pat. P (fst pat)) (map (\<lambda>rule. (glob rule, strategy rule)) rs) of
      Some pat \<Rightarrow> snd pat | None \<Rightarrow> d)"
  by (induction rs) auto

text \<open>
  What the classifier computes, in terms of \<^verbatim>\<open>getExtension\<close>.  With \<open>patterns\<close> the
  rules flattened in declared order (each rule's glob split at the commas, every piece
  trimmed and paired with the rule's strategy): a file for which \<^verbatim>\<open>getExtension\<close>
  returns one of md, txt, json, yaml, yml, toml, ini, conf, cfg, config, properties, env is
  classified \<open>Resolve\<close> whatever the rules say; any other file gets the strategy of the
  first pattern that matches its path, and the fallback strategy when no pattern matches.
  \<^verbatim>\<open>getExtension\<close> returns the text after the last dot (lemma \<open>getExtension_suffix\<close>),
  and the whole path when the path has no dot (lemma \<open>getExtension_no_dot\<close>).
\<close>

lemma getResolutionStrategy_by_getExtension:
  "(let patterns =
          concat (map (\<lambda>rule. map (\<lambda>g. (trim g, strategy rule)) (split_on CHR '','' (glob rule)))
            (resolution_strategies settings));
        result = getResolutionStrategy minimatch settings hostF remoteF
    in (getExtension hostF \<in> Some ` set [''md'', ''txt'', ''json'', ''yaml'', ''yml'', ''toml'',
          ''ini'', ''conf'', ''cfg'', ''config'', ''properties'', ''env'']
          \<longrightarrow> result = Resolve) \<and>
       (getExtension hostF \<notin> Some ` set [''md'', ''txt'', ''json'', ''yaml'', ''yml'', ''toml'',
          ''ini'', ''conf'', ''cfg'', ''config'', ''properties'', ''env'']
          \<longrightarrow> (\<forall>i < length patterns.
                 minimatch (path hostF) (fst (patterns ! i)) \<and>
                 (\<forall>j < i. \<not> minimatch (path hostF) (fst (patterns ! j)))
                 \<longrightarrow> result = snd (patterns ! i)) \<and>
               ((\<forall>pat \<in> set patterns. \<not> minimatch (path hostF) (fst pat))
                 \<longrightarrow> result = fallback_conflict_resolution_strategy settings)))"
proof -
  let ?pats = "concat (map (\<lambda>rule. map (\<lambda>g. (trim g, strategy rule)) (split_on CHR '','' (glob rule)))
            (resolution_strategies settings))"
  let ?P = "\<lambda>pat. minimatch (path hostF) (fst pat)"
  let ?res = "getResolutionStrategy minimatch settings hostF remoteF"
  have res: "?res = (if isTextBasedFile hostF then Resolve
      else case find ?P ?pats of Some pat \<Rightarrow> snd pat
           | None \<Rightarrow> fallback_conflict_resolution_strategy settings)"
    unfolding getResolutionStrategy_def Let_def
    using strategy_of_find[where P = "minimatch (path hostF)"
        and rs = "flattenRules (resolution_strategies settings)"
        and d = "fallback_conflict_resolution_strategy settings"]
    by (simp add: flattenRules_patterns)
  have istext: "isTextBasedFile hostF \<Longrightarrow> ?res = Resolve"
    by (simp add: res)
  have first: "?res = snd (?pats ! i)"
    if "\<not> isTextBasedFile hostF" and "i < length ?pats" and "?P (?pats ! i)"
      and "\<forall>j < i. \<not> ?P (?pats ! j)" for i
  proof -
    have "find ?P ?pats = Some (?pats ! i)"
      using that(2-4) unfolding find_Some_iff by blast
    then show ?thesis using that(1) by (simp add: res)
  qed
  have none: "?res = fallback_conflict_resolution_strategy settings"
    if "\<not> isTextBasedFile hostF" and "\<forall>pat \<in> set ?pats. \<not> ?P pat"
  proof -
    have "find ?P ?pats = None"
      using that(2) unfolding find_None_iff by blast
    then show ?thesis using that(1) by (simp add: res)
  qed
  show ?thesis
    unfolding Let_def isTextBasedFile_iff[symmetric]
    using istext first none by blast
qed

text \<open>
  Claim C5.  The claim: a file whose extension is in the text allow-list is classified
  \<open>Resolve\<close>, and every other file gets the strategy of the first matching pattern (the
  fallback when none matches).  The source departs from it on a file without a dot in its
  path.  \<^verbatim>\<open>getExtension\<close> is \<^verbatim>\<open>file.path.split('.').pop()\<close>, and splitting a string
  without a dot gives the string itself, so what it returns for the root-level file
  \<^verbatim>\<open>env\<close> is \<^verbatim>\<open>env\<close>, an entry of the allow-list.  The file has no extension, a rule
  \<^verbatim>\<open>env\<close> with strategy \<^verbatim>\<open>always-push\<close> matches its path, and the result is
  \<open>Resolve\<close> all the same.  The same file one folder down, \<^verbatim>\<open>dir/env\<close>, is handled as
  the claim says: its \<^verbatim>\<open>getExtension\<close> is \<^verbatim>\<open>dir/env\<close>, not in the list, and the
  matching rule decides.  \<^verbatim>\<open>isTextBasedFile\<close> reads \<^verbatim>\<open>getExtension(file) ?? ''\<close>: it
  expects no extension to come back as \<^verbatim>\<open>undefined\<close>, which \<^verbatim>\<open>split('.').pop()\<close> never
  returns.  The matcher is a parameter; on the literal patterns used here it is string
  equality.
\<close>

theorem getResolutionStrategy_dotless_path:
  "getExtension
     \<lparr>path = ''env'', size_bytes = 9, createdAt = 1, updatedAt = 2, deletedAt = 2, deleted = False\<rparr> = Some ''env'' \<and>
   isTextBasedFile
     \<lparr>path = ''env'', size_bytes = 9, createdAt = 1, updatedAt = 2, deletedAt = 2, deleted = False\<rparr> \<and>
   getResolutionStrategy (\<lambda>p g. p = g)
     \<lparr>last_synced_at = None, exclude_globs = [],
      resolution_strategies = [\<lparr>glob = ''env'', strategy = AlwaysPush\<rparr>],
      fallback_conflict_resolution_strategy = Latest, sync_internal_files = False\<rparr>
     \<lparr>path = ''env'', size_bytes = 9, createdAt = 1, updatedAt = 2, deletedAt = 2, deleted = False\<rparr>
     \<lparr>path = ''env'', size_bytes = 9, createdAt = 1, updatedAt = 3, deletedAt = 3, deleted = False\<rparr> = Resolve \<and>
   getExtension
     \<lparr>path = ''dir/env'', size_bytes = 9, createdAt = 1, updatedAt = 2, deletedAt = 2, deleted = False\<rparr> = Some ''dir/env'' \<and>
   getResolutionStrategy (\<lambda>p g. p = g)
     \<lparr>last_synced_at = None, exclude_globs = [],
      resolution_strategies = [\<lparr>glob = ''dir/env'', strategy = AlwaysPush\<rparr>],
      fallback_conflict_resolution_strategy = Latest, sync_internal_files = False\<rparr>
     \<lparr>path = ''dir/env'', size_bytes = 9, createdAt = 1, updatedAt = 2, deletedAt = 2, deleted = False\<rparr>
     \<lparr>path = ''dir/env'', size_bytes = 9, createdAt = 1, updatedAt = 3, deletedAt = 3, deleted = False\<rparr> = AlwaysPush"
  by (simp add: getResolutionStrategy_def isTextBasedFile_def getExtension_def
        flattenRules_def trim_def isWhiteSpace_def)

text \<open>
  Claim C6.  \<^verbatim>\<open>resolve\<close> takes as older the text of the record with the strictly
  smaller \<open>updatedAt\<close> and as newer the other one, and returns
  \<open>reconcile older older newer\<close>.  When the two timestamps are equal neither is strictly
  smaller, and the source takes the remote text as the older one.
\<close>

theorem resolve_older_newer:
  "(updatedAt hostF < updatedAt remoteF \<longrightarrow>
      resolve reconcile hostF remoteF hostText remoteText = reconcile hostText hostText remoteText) \<and>
   (updatedAt remoteF < updatedAt hostF \<longrightarrow>
      resolve reconcile hostF remoteF hostText remoteText = reconcile remoteText remoteText hostText) \<and>
   (updatedAt hostF = updatedAt remoteF \<longrightarrow>
      resolve reconcile hostF remoteF hostText remoteText = reconcile remoteText remoteText hostText)"
  by (simp add: resolve_def)


lemma getResolutionStrategy_by_getExtension_example:
  "getResolutionStrategy (\<lambda>p g. p = g)
     \<lparr>last_synced_at = None, exclude_globs = [],
      resolution_strategies =
        [\<lparr>glob = ''*.jpg, img.png'', strategy = Latest\<rparr>, \<lparr>glob = ''img.png'', strategy = Ignore\<rparr>],
      fallback_conflict_resolution_strategy = Oldest, sync_internal_files = False\<rparr>
     \<lparr>path = ''notes/a.md'', size_bytes = 1, createdAt = 1, updatedAt = 2, deletedAt = 2, deleted = False\<rparr>
     \<lparr>path = ''notes/a.md'', size_bytes = 1, createdAt = 1, updatedAt = 3, deletedAt = 3, deleted = False\<rparr>
     = Resolve \<and>
   getResolutionStrategy (\<lambda>p g. p = g)
     \<lparr>last_synced_at = None, exclude_globs = [],
      resolution_strategies =
        [\<lparr>glob = ''*.jpg, img.png'', strategy = Latest\<rparr>, \<lparr>glob = ''img.png'', strategy = Ignore\<rparr>],
      fallback_conflict_resolution_strategy = Oldest, sync_internal_files = False\<rparr>
     \<lparr>path = ''img.png'', size_bytes = 1, createdAt = 1, updatedAt = 2, deletedAt = 2, deleted = False\<rparr>
     \<lparr>path = ''img.png'', size_bytes = 1, createdAt = 1, updatedAt = 3, deletedAt = 3, deleted = False\<rparr>
     = Latest \<and>
   getResolutionStrategy (\<lambda>p g. p = g)
     \<lparr>last_synced_at = None, exclude_globs = [],
      resolution_strategies =
        [\<lparr>glob = ''*.jpg, img.png'', strategy = Latest\<rparr>, \<lparr>glob = ''img.png'', strategy = Ignore\<rparr>],
      fallback_conflict_resolution_strategy = Oldest, sync_internal_files = False\<rparr>
     \<lparr>path = ''x.bin'', size_bytes = 1, createdAt = 1, updatedAt = 2, deletedAt = 2, deleted = False\<rparr>
     \<lparr>path = ''x.bin'', size_bytes = 1, createdAt = 1, updatedAt = 3, deletedAt = 3, deleted = False\<rparr>
     = Oldest"
proof -
  let ?S = "\<lparr>last_synced_at = None, exclude_globs = [],
      resolution_strategies =
        [\<lparr>glob = ''*.jpg, img.png'', strategy = Latest\<rparr>, \<lparr>glob = ''img.png'', strategy = Ignore\<rparr>],
      fallback_conflict_resolution_strategy = Oldest, sync_internal_files = False\<rparr>"
  let ?pats = "concat (map (\<lambda>rule. map (\<lambda>g. (trim g, strategy rule)) (split_on CHR '','' (glob rule)))
            (resolution_strategies ?S))"
  have pats: "?pats = [(''*.jpg'', Latest), (''img.png'', Latest), (''img.png'', Ignore)]"
    by (simp add: trim_def isWhiteSpace_def)
  have a: "getResolutionStrategy (\<lambda>p g. p = g) ?S
     \<lparr>path = ''notes/a.md'', size_bytes = 1, createdAt = 1, updatedAt = 2, deletedAt = 2, deleted = False\<rparr>
     \<lparr>path = ''notes/a.md'', size_bytes = 1, createdAt = 1, updatedAt = 3, deletedAt = 3, deleted = False\<rparr>
     = Resolve"
    using getResolutionStrategy_by_getExtension[where minimatch = "\<lambda>p g. p = g" and settings = ?S
        and hostF = "\<lparr>path = ''notes/a.md'', size_bytes = 1, createdAt = 1, updatedAt = 2, deletedAt = 2, deleted = False\<rparr>"
        and remoteF = "\<lparr>path = ''notes/a.md'', size_bytes = 1, createdAt = 1, updatedAt = 3, deletedAt = 3, deleted = False\<rparr>"]
    unfolding Let_def by (simp add: getExtension_def)
  have b: "getResolutionStrategy (\<lambda>p g. p = g) ?S
     \<lparr>path = ''img.png'', size_bytes = 1, createdAt = 1, updatedAt = 2, deletedAt = 2, deleted = False\<rparr>
     \<lparr>path = ''img.png'', size_bytes = 1, createdAt = 1, updatedAt = 3, deletedAt = 3, deleted = False\<rparr>
     = snd (?pats ! 1)"
    using getResolutionStrategy_by_getExtension[where minimatch = "\<lambda>p g. p = g" and settings = ?S
        and hostF = "\<lparr>path = ''img.png'', size_bytes = 1, createdAt = 1, updatedAt = 2, deletedAt = 2, deleted = False\<rparr>"
        and remoteF = "\<lparr>path = ''img.png'', size_bytes = 1, createdAt = 1, updatedAt = 3, deletedAt = 3, deleted = False\<rparr>",
        unfolded Let_def, THEN conjunct2, THEN mp, THEN conjunct1, THEN spec, of 1]
    unfolding pats by (simp add: getExtension_def)
  have c: "getResolutionStrategy (\<lambda>p g. p = g) ?S
     \<lparr>path = ''x.bin'', size_bytes = 1, createdAt = 1, updatedAt = 2, deletedAt = 2, deleted = False\<rparr>
     \<lparr>path = ''x.bin'', size_bytes = 1, createdAt = 1, updatedAt = 3, deletedAt = 3, deleted = False\<rparr>
     = Oldest"
    using getResolutionStrategy_by_getExtension[where minimatch = "\<lambda>p g. p = g" and settings = ?S
        and hostF = "\<lparr>path = ''x.bin'', size_bytes = 1, createdAt = 1, updatedAt = 2, deletedAt = 2, deleted = False\<rparr>"
        and remoteF = "\<lparr>path = ''x.bin'', size_bytes = 1, createdAt = 1, updatedAt = 3, deletedAt = 3, deleted = False\<rparr>",
        unfolded Let_def, THEN conjunct2, THEN mp, THEN conjunct2]
    unfolding pats by (simp add: getExtension_def)
  show ?thesis using a b c by (simp add: pats)
qed

theorem resolve_older_newer_witness:
  "resolve (\<lambda>original left right. right)
     \<lparr>path = ''config.json'', size_bytes = 1, createdAt = 1, updatedAt = 200, deletedAt = 200, deleted = False\<rparr>
     \<lparr>path = ''config.json'', size_bytes = 1, createdAt = 1, updatedAt = 250, deletedAt = 250, deleted = False\<rparr>
     ''host text'' ''remote text'' = ''remote text'' \<and>
   resolve (\<lambda>original left right. original)
     \<lparr>path = ''config.json'', size_bytes = 1, createdAt = 1, updatedAt = 200, deletedAt = 200, deleted = False\<rparr>
     \<lparr>path = ''config.json'', size_bytes = 1, createdAt = 1, updatedAt = 250, deletedAt = 250, deleted = False\<rparr>
     ''host text'' ''remote text'' = ''host text'' \<and>
   resolve (\<lambda>original left right. original)
     \<lparr>path = ''config.json'', size_bytes = 1, createdAt = 1, updatedAt = 300, deletedAt = 300, deleted = False\<rparr>
     \<lparr>path = ''config.json'', size_bytes = 1, createdAt = 1, updatedAt = 250, deletedAt = 250, deleted = False\<rparr>
     ''host text'' ''remote text'' = ''remote text'' \<and>
   resolve (\<lambda>original left right. original)
     \<lparr>path = ''config.json'', size_bytes = 1, createdAt = 1, updatedAt = 250, deletedAt = 250, deleted = False\<rparr>
     \<lparr>path = ''config.json'', size_bytes = 1, createdAt = 1, updatedAt = 250, deletedAt = 250, deleted = False\<rparr>
     ''host text'' ''remote text'' = ''remote text''"
  using
    resolve_older_newer[where reconcile = "\<lambda>original left right. right"
      and hostF = "\<lparr>path = ''config.json'', size_bytes = 1, createdAt = 1, updatedAt = 200, deletedAt = 200, deleted = False\<rparr>"
      and remoteF = "\<lparr>path = ''config.json'', size_bytes = 1, createdAt = 1, updatedAt = 250, deletedAt = 250, deleted = False\<rparr>"
      and hostText = "''host text''" and remoteText = "''remote text''"]
    resolve_older_newer[where reconcile = "\<lambda>original left right. original"
      and hostF = "\<lparr>path = ''config.json'', size_bytes = 1, createdAt = 1, updatedAt = 200, deletedAt = 200, deleted = False\<rparr>"
      and remoteF = "\<lparr>path = ''config.json'', size_bytes = 1, createdAt = 1, updatedAt = 250, deletedAt = 250, deleted = False\<rparr>"
      and hostText = "''host text''" and remoteText = "''remote text''"]
    resolve_older_newer[where reconcile = "\<lambda>original left right. original"
      and hostF = "\<lparr>path = ''config.json'', size_bytes = 1, createdAt = 1, updatedAt = 300, deletedAt = 300, deleted = False\<rparr>"
      and remoteF = "\<lparr>path = ''config.json'', size_bytes = 1, createdAt = 1, updatedAt = 250, deletedAt = 250, deleted = False\<rparr>"
      and hostText = "''host text''" and remoteText = "''remote text''"]
    resolve_older_newer[where reconcile = "\<lambda>original left right. original"
      and hostF = "\<lparr>path = ''config.json'', size_bytes = 1, createdAt = 1, updatedAt = 250, deletedAt = 250, deleted = False\<rparr>"
      and remoteF = "\<lparr>path = ''config.json'', size_bytes = 1, createdAt = 1, updatedAt = 250, deletedAt = 250, deleted = False\<rparr>"
      and hostText = "''host text''" and remoteText = "''remote text''"]
  by simp

section \<open>Properties of the local file system\<close>

lemma lastIndexOf_bounds: "- 1 \<le> lastIndexOf c s \<and> lastIndexOf c s < int (length s)"
  by (induction s) (auto simp: Let_def)

lemma substring_from_start: "substring s 0 k = take (nat k) s"
  by (simp add: substring_def Let_def min_def)

lemma parentDir_shorter:
  assumes "substring p 0 (lastIndexOf CHR ''/'' p) \<noteq> []"
  shows "length (substring p 0 (lastIndexOf CHR ''/'' p)) < length p"
proof -
  have "lastIndexOf CHR ''/'' p < int (length p)" by (simp add: lastIndexOf_bounds)
  moreover have "p \<noteq> []" using assms by (auto simp: substring_from_start)
  ultimately have "nat (lastIndexOf CHR ''/'' p) < length p"
    by (cases "0 \<le> lastIndexOf CHR ''/'' p") (simp_all add: nat_less_iff)
  then show ?thesis by (simp add: substring_from_start)
qed

lemma split_on_total:
  "sum_list (map (\<lambda>piece. length piece + 1) (split_on c s)) = length s + 1"
proof (induction s)
  case Nil
  then show ?case by simp
next
  case (Cons x xs)
  then show ?case by (cases "split_on c xs") (auto split: if_splits)
qed

lemma mkdirpLoop_frame:
  "(if cur = [] then 0 else length cur + 1) + sum_list (map (\<lambda>piece. length piece + 1) parts)
      \<le> length q
   \<Longrightarrow> entries (mkdirpLoop parts cur v) q = entries v q"
proof (induction parts arbitrary: cur v)
  case Nil
  then show ?case by simp
next
  case (Cons part parts)
  let ?cur = "if cur \<noteq> [] then cur @ ''/'' @ part else part"
  let ?v = "if getAbstractFileByPath v ?cur = None then createFolder ?cur v else v"
  have len: "length ?cur < length q" using Cons.prems by (auto split: if_splits)
  then have "?cur \<noteq> q" by auto
  then have same: "entries ?v q = entries v q" by (simp add: createFolder_def)
  have "(if ?cur = [] then 0 else length ?cur + 1) + sum_list (map (\<lambda>piece. length piece + 1) parts)
      \<le> length q"
    using Cons.prems by (auto split: if_splits)
  then have "entries (mkdirpLoop parts ?cur ?v) q = entries ?v q" by (rule Cons.IH)
  then show ?case using same by (simp add: Let_def)
qed

lemma mkdirpInVault_frame:
  assumes "length dir < length q"
  shows "entries (mkdirpInVault dir v) q = entries v q"
proof -
  let ?parts = "filter (\<lambda>part. length part > 0) (split_on CHR ''/'' dir)"
  have "sum_list (map (\<lambda>piece. length piece + 1) ?parts)
          \<le> sum_list (map (\<lambda>piece. length piece + 1) (split_on CHR ''/'' dir))"
    by (rule sum_list_filter_le_nat)
  also have "\<dots> = length dir + 1" by (rule split_on_total)
  finally have "(if ([]::string) = [] then 0 else length ([]::string) + 1) +
      sum_list (map (\<lambda>piece. length piece + 1) ?parts) \<le> length q"
    using assms by simp
  then show ?thesis
    unfolding mkdirpInVault_def Let_def by (rule mkdirpLoop_frame)
qed

lemma getFileStats_mkdirp:
  "length dir < length p \<Longrightarrow> getFileStats p (mkdirpInVault dir v) = getFileStats p v"
  by (simp add: getFileStats_def getAbstractFileByPath_def mkdirpInVault_frame)

lemma local_update_stats:
  "getFileStats p
     (if substring p 0 (lastIndexOf CHR ''/'' p) \<noteq> [] \<and> length (substring p 0 (lastIndexOf CHR ''/'' p)) > 0
      then mkdirpInVault (substring p 0 (lastIndexOf CHR ''/'' p)) v else v) = getFileStats p v"
  using parentDir_shorter[of p] by (simp add: getFileStats_mkdirp)

text \<open>
  Claim C8.  Let \<open>mtime\<close> be the modification time the local store records for the path
  (\<^verbatim>\<open>getFileStats\<close>: zero when no file is there).  \<^verbatim>\<open>update\<close> and \<^verbatim>\<open>remove\<close>
  fail with the staleness error exactly when \<open>mtime\<close> is non-zero and differs from
  \<open>previousUpdatedAt\<close>; the file is then left as it was.  Otherwise both return
  normally: \<^verbatim>\<open>update\<close> leaves the new content at the path, stamped \<open>newUpdatedAt\<close>
  (the creation time kept when there was one), and \<^verbatim>\<open>remove\<close> leaves nothing at the
  path.  Making the parent folders, which \<^verbatim>\<open>update\<close> does before the check, does
  not touch the record of the path itself (lemma \<open>local_update_stats\<close>).
\<close>

theorem local_store_staleness:
  "(let (mtime, ctime) = getFileStats p (vault fs);
        stale = (mtime \<noteq> 0 \<and> mtime \<noteq> previousUpdatedAt);
        (updated, fs1) = local_update p buffer previousUpdatedAt newUpdatedAt fs;
        (removed, fs2) = local_remove p previousUpdatedAt fs
    in (updated = Inl FileModifiedSinceLastSync \<longleftrightarrow> stale) \<and>
       (removed = Inl FileModifiedSinceLastSync \<longleftrightarrow> stale) \<and>
       (stale \<longrightarrow> getAbstractFileByPath (vault fs1) p = getAbstractFileByPath (vault fs) p \<and>
                  fs2 = fs) \<and>
       (\<not> stale \<longrightarrow>
          updated = Inr () \<and>
          getAbstractFileByPath (vault fs1) p =
            Some (TFile newUpdatedAt (if ctime \<noteq> 0 then ctime else newUpdatedAt) buffer) \<and>
          removed = Inr () \<and>
          getAbstractFileByPath (vault fs2) p = None))"
proof -
  obtain mtime ctime where st: "getFileStats p (vault fs) = (mtime, ctime)"
    by (cases "getFileStats p (vault fs)")
  let ?v1 = "if substring p 0 (lastIndexOf CHR ''/'' p) \<noteq> [] \<and> length (substring p 0 (lastIndexOf CHR ''/'' p)) > 0
      then mkdirpInVault (substring p 0 (lastIndexOf CHR ''/'' p)) (vault fs) else vault fs"
  have st1: "getFileStats p ?v1 = (mtime, ctime)"
    using local_update_stats[of p "vault fs"] st by simp
  have e1: "entries ?v1 p = entries (vault fs) p"
    using parentDir_shorter[of p] by (simp add: mkdirpInVault_frame)
  define stale where "stale \<longleftrightarrow> mtime \<noteq> 0 \<and> mtime \<noteq> previousUpdatedAt"
  have upd: "local_update p buffer previousUpdatedAt newUpdatedAt fs =
      (if stale
       then (Inl FileModifiedSinceLastSync, fs\<lparr>vault := ?v1\<rparr>)
       else (Inr (), fs\<lparr>vault := writeFile p buffer newUpdatedAt
                               (if ctime \<noteq> 0 then ctime else newUpdatedAt) ?v1\<rparr>))"
    unfolding local_update_def Let_def st1 stale_def by simp
  have rem: "local_remove p previousUpdatedAt fs =
      (if stale
       then (Inl FileModifiedSinceLastSync, fs)
       else if deleteToWhere fs = Obsidian
       then (Inr (), fs\<lparr>vault := trashLocal p (vault fs)\<rparr>)
       else (case trashSystem p (vault fs) of
                 (ok, v1) \<Rightarrow>
                   if \<not> ok then (Inr (), fs\<lparr>vault := trashLocal p v1\<rparr>)
                   else (Inr (), fs\<lparr>vault := v1\<rparr>)))"
    unfolding local_remove_def Let_def st stale_def by simp
  have written: "entries (writeFile p buffer newUpdatedAt c ?v1) p = Some (TFile newUpdatedAt c buffer)"
    for c
    by (simp add: writeFile_def writeBinary_def)
  have trashed: "entries (vault (snd (
       if deleteToWhere fs = Obsidian
       then (Inr (), fs\<lparr>vault := trashLocal p (vault fs)\<rparr>)
       else (case trashSystem p (vault fs) of
                 (ok, v1) \<Rightarrow>
                   if \<not> ok then (Inr (), fs\<lparr>vault := trashLocal p v1\<rparr>)
                   else (Inr (), fs\<lparr>vault := v1\<rparr>))))) p = None"
      and trashed_ok: "fst (
       if deleteToWhere fs = Obsidian
       then (Inr (), fs\<lparr>vault := trashLocal p (vault fs)\<rparr>)
       else (case trashSystem p (vault fs) of
                 (ok, v1) \<Rightarrow>
                   if \<not> ok then (Inr (), fs\<lparr>vault := trashLocal p v1\<rparr>)
                   else (Inr (), fs\<lparr>vault := v1\<rparr>))) = (Inr () :: error + unit)"
    by (simp_all add: trashLocal_def trashSystem_def)
  let ?U = "local_update p buffer previousUpdatedAt newUpdatedAt fs"
  let ?R = "local_remove p previousUpdatedAt fs"
  have main:
    "(fst ?U = Inl FileModifiedSinceLastSync \<longleftrightarrow> stale) \<and>
     (fst ?R = Inl FileModifiedSinceLastSync \<longleftrightarrow> stale) \<and>
     (stale \<longrightarrow> getAbstractFileByPath (vault (snd ?U)) p = getAbstractFileByPath (vault fs) p \<and>
                snd ?R = fs) \<and>
     (\<not> stale \<longrightarrow>
        fst ?U = Inr () \<and>
        getAbstractFileByPath (vault (snd ?U)) p =
          Some (TFile newUpdatedAt (if ctime \<noteq> 0 then ctime else newUpdatedAt) buffer) \<and>
        fst ?R = Inr () \<and>
        getAbstractFileByPath (vault (snd ?R)) p = None)"
  proof (cases stale)
    case True
    then show ?thesis
      unfolding upd rem using e1 by (simp add: getAbstractFileByPath_def)
  next
    case False
    then show ?thesis
      unfolding upd rem using written trashed trashed_ok
      by (simp add: getAbstractFileByPath_def)
  qed
  show ?thesis
    unfolding Let_def st case_prod_beta fst_conv snd_conv
    using main unfolding stale_def by simp
qed


theorem local_store_staleness_witness:
  "fst (local_update ''notes/a.md'' ''new'' 90 500 \<lparr>vault = \<lparr>entries = [''notes/a.md'' \<mapsto> TFile 100 50 ''old''], local_trash = [],
                 system_trash = [], system_trash_available = False\<rparr>,
       deleteToWhere = System\<rparr>) = Inl FileModifiedSinceLastSync \<and>
   fst (local_remove ''notes/a.md'' 90 \<lparr>vault = \<lparr>entries = [''notes/a.md'' \<mapsto> TFile 100 50 ''old''], local_trash = [],
                 system_trash = [], system_trash_available = False\<rparr>,
       deleteToWhere = System\<rparr>) = Inl FileModifiedSinceLastSync \<and>
   snd (local_remove ''notes/a.md'' 90 \<lparr>vault = \<lparr>entries = [''notes/a.md'' \<mapsto> TFile 100 50 ''old''], local_trash = [],
                 system_trash = [], system_trash_available = False\<rparr>,
       deleteToWhere = System\<rparr>) = \<lparr>vault = \<lparr>entries = [''notes/a.md'' \<mapsto> TFile 100 50 ''old''], local_trash = [],
                 system_trash = [], system_trash_available = False\<rparr>,
       deleteToWhere = System\<rparr> \<and>
   fst (local_update ''notes/a.md'' ''new'' 100 500 \<lparr>vault = \<lparr>entries = [''notes/a.md'' \<mapsto> TFile 100 50 ''old''], local_trash = [],
                 system_trash = [], system_trash_available = False\<rparr>,
       deleteToWhere = System\<rparr>) = Inr () \<and>
   getAbstractFileByPath (vault (snd (local_update ''notes/a.md'' ''new'' 100 500 \<lparr>vault = \<lparr>entries = [''notes/a.md'' \<mapsto> TFile 100 50 ''old''], local_trash = [],
                 system_trash = [], system_trash_available = False\<rparr>,
       deleteToWhere = System\<rparr>))) ''notes/a.md''
     = Some (TFile 500 50 ''new'') \<and>
   fst (local_remove ''notes/a.md'' 100 \<lparr>vault = \<lparr>entries = [''notes/a.md'' \<mapsto> TFile 100 50 ''old''], local_trash = [],
                 system_trash = [], system_trash_available = False\<rparr>,
       deleteToWhere = System\<rparr>) = Inr () \<and>
   getAbstractFileByPath (vault (snd (local_remove ''notes/a.md'' 100 \<lparr>vault = \<lparr>entries = [''notes/a.md'' \<mapsto> TFile 100 50 ''old''], local_trash = [],
                 system_trash = [], system_trash_available = False\<rparr>,
       deleteToWhere = System\<rparr>))) ''notes/a.md'' = None \<and>
   fst (local_update ''b/c.txt'' ''new'' 7 500 \<lparr>vault = \<lparr>entries = [''notes/a.md'' \<mapsto> TFile 100 50 ''old''], local_trash = [],
                 system_trash = [], system_trash_available = False\<rparr>,
       deleteToWhere = System\<rparr>) = Inr () \<and>
   getAbstractFileByPath (vault (snd (local_update ''b/c.txt'' ''new'' 7 500 \<lparr>vault = \<lparr>entries = [''notes/a.md'' \<mapsto> TFile 100 50 ''old''], local_trash = [],
                 system_trash = [], system_trash_available = False\<rparr>,
       deleteToWhere = System\<rparr>))) ''b/c.txt''
     = Some (TFile 500 500 ''new'')"
proof -
  have s1: "getFileStats ''notes/a.md'' (vault \<lparr>vault = \<lparr>entries = [''notes/a.md'' \<mapsto> TFile 100 50 ''old''], local_trash = [],
                 system_trash = [], system_trash_available = False\<rparr>,
       deleteToWhere = System\<rparr>) = (100, 50)"
    by (simp add: getFileStats_def getAbstractFileByPath_def)
  have s2: "getFileStats ''b/c.txt'' (vault \<lparr>vault = \<lparr>entries = [''notes/a.md'' \<mapsto> TFile 100 50 ''old''], local_trash = [],
                 system_trash = [], system_trash_available = False\<rparr>,
       deleteToWhere = System\<rparr>) = (0, 0)"
    by (simp add: getFileStats_def getAbstractFileByPath_def)
  show ?thesis
    using
      local_store_staleness[where p = "''notes/a.md''" and fs = "\<lparr>vault = \<lparr>entries = [''notes/a.md'' \<mapsto> TFile 100 50 ''old''], local_trash = [],
                 system_trash = [], system_trash_available = False\<rparr>,
       deleteToWhere = System\<rparr>" and previousUpdatedAt = 90
        and buffer = "''new''" and newUpdatedAt = 500]
      local_store_staleness[where p = "''notes/a.md''" and fs = "\<lparr>vault = \<lparr>entries = [''notes/a.md'' \<mapsto> TFile 100 50 ''old''], local_trash = [],
                 system_trash = [], system_trash_available = False\<rparr>,
       deleteToWhere = System\<rparr>" and previousUpdatedAt = 100
        and buffer = "''new''" and newUpdatedAt = 500]
      local_store_staleness[where p = "''b/c.txt''" and fs = "\<lparr>vault = \<lparr>entries = [''notes/a.md'' \<mapsto> TFile 100 50 ''old''], local_trash = [],
                 system_trash = [], system_trash_available = False\<rparr>,
       deleteToWhere = System\<rparr>" and previousUpdatedAt = 7
        and buffer = "''new''" and newUpdatedAt = 500]
    unfolding Let_def s1 s2 by (simp add: case_prod_beta)
qed

section \<open>Properties of the applier\<close>

lemma record_call_apply:
  "record_call c m (w, log) = (fst (m w), (snd (m w), log @ [c]))"
  by (simp add: record_call_def split: prod.splits)

lemma io_bind_apply:
  "io_bind m f w = (case fst (m w) of Inl e \<Rightarrow> (Inl e, snd (m w)) | Inr a \<Rightarrow> f a (snd (m w)))"
  by (simp add: io_bind_def split: prod.splits sum.splits)

lemma recording_simps:
  "fs_getFiles (recording side fs) = record_call (side, CallGetFiles) (fs_getFiles fs)"
  "fs_getFileContent (recording side fs) p =
     record_call (side, CallGetFileContent p) (fs_getFileContent fs p)"
  "fs_update (recording side fs) p buffer prev new =
     record_call (side, CallUpdate p buffer prev new) (fs_update fs p buffer prev new)"
  "fs_remove (recording side fs) p prev now =
     record_call (side, CallRemove p prev now) (fs_remove fs p prev now)"
  "fs_prune (recording side fs) p = record_call (side, CallPrune p) (fs_prune fs p)"
  by (simp_all add: recording_def)

lemma applySyncAction_Prune:
  "action act = Prune \<Longrightarrow>
   applySyncAction host remote crypto cr act now =
     (case hostFile act of Some hostF \<Rightarrow> fs_prune host (path hostF) | None \<Rightarrow> io_return ())"
  by (simp add: applySyncAction.simps)

lemma applySyncAction_Remove:
  "action act = Remove \<Longrightarrow>
   applySyncAction host remote crypto cr act now =
     io_bind
       (case remoteFile act of
          Some remoteF \<Rightarrow> fs_remove remote (path remoteF) (updatedAt remoteF) now
        | None \<Rightarrow> io_return ())
       (\<lambda>_. case hostFile act of
               Some hostF \<Rightarrow> fs_remove host (path hostF) (updatedAt hostF) now
             | None \<Rightarrow> io_return ())"
  by (simp add: applySyncAction.simps)

lemma applySyncAction_Push:
  "action act = Push \<Longrightarrow>
   applySyncAction host remote crypto cr act now =
     (case hostFile act of
        Some hostF \<Rightarrow>
          io_bind (fs_getFileContent host (path hostF))
            (\<lambda>buffer.
               fs_update remote (path hostF) buffer
                 (case remoteFile act of
                    Some remoteF \<Rightarrow> updatedAt remoteF
                  | None \<Rightarrow> updatedAt hostF)
                 (updatedAt hostF))
      | None \<Rightarrow> io_return ())"
  by (simp add: applySyncAction.simps)

lemma applySyncAction_Pull:
  "action act = Pull \<Longrightarrow>
   applySyncAction host remote crypto cr act now =
     (case remoteFile act of
        Some remoteF \<Rightarrow>
          io_bind (fs_getFileContent remote (path remoteF))
            (\<lambda>buffer.
               fs_update host (path remoteF) buffer
                 (case hostFile act of
                    Some hostF \<Rightarrow> updatedAt hostF
                  | None \<Rightarrow> updatedAt remoteF)
                 (updatedAt remoteF))
      | None \<Rightarrow> io_return ())"
  by (simp add: applySyncAction.simps)

text \<open>
  Claim C7.  The calls of a remove action are the remote store's \<^verbatim>\<open>remove\<close> (when the
  action has a remote record) followed by the host store's \<^verbatim>\<open>remove\<close> (when it has a
  host record and the remote removal did not throw).  So no run of a remove action has a
  call to the host before a call to the remote.
\<close>

theorem remove_remote_first:
  assumes "action act = Remove"
  shows "actionCalls host remote crypto cr act now w =
           (case remoteFile act of
              None \<Rightarrow> []
            | Some remoteF \<Rightarrow> [(RemoteSide, CallRemove (path remoteF) (updatedAt remoteF) now)]) @
           (case hostFile act of
              None \<Rightarrow> []
            | Some hostF \<Rightarrow>
                if (case remoteFile act of
                      None \<Rightarrow> True
                    | Some remoteF \<Rightarrow>
                        fst (fs_remove remote (path remoteF) (updatedAt remoteF) now w) = Inr ())
                then [(HostSide, CallRemove (path hostF) (updatedAt hostF) now)]
                else []) \<and>
         \<not> (\<exists>pre c mid c' post.
               actionCalls host remote crypto cr act now w =
                 pre @ (HostSide, c) # mid @ (RemoteSide, c') # post)"
proof -
  let ?calls = "actionCalls host remote crypto cr act now w"
  have calls: "?calls =
           (case remoteFile act of
              None \<Rightarrow> []
            | Some remoteF \<Rightarrow> [(RemoteSide, CallRemove (path remoteF) (updatedAt remoteF) now)]) @
           (case hostFile act of
              None \<Rightarrow> []
            | Some hostF \<Rightarrow>
                if (case remoteFile act of
                      None \<Rightarrow> True
                    | Some remoteF \<Rightarrow>
                        fst (fs_remove remote (path remoteF) (updatedAt remoteF) now w) = Inr ())
                then [(HostSide, CallRemove (path hostF) (updatedAt hostF) now)]
                else [])"
    unfolding actionCalls_def applySyncAction_Remove[OF assms]
    by (cases "remoteFile act"; cases "hostFile act")
       (auto simp: io_bind_apply io_return_def recording_simps record_call_apply
          split: sum.splits)
  have order: "\<not> (\<exists>pre c mid c' post. ?calls = pre @ (HostSide, c) # mid @ (RemoteSide, c') # post)"
    unfolding calls
    by (cases "remoteFile act"; cases "hostFile act")
       (auto simp: append_eq_Cons_conv Cons_eq_append_conv)
  show ?thesis using calls order by blast
qed

text \<open>
  Claim C2, as amended.  A push with a host record reads the content from the host and,
  if that succeeds, writes it to the remote with the remote record's \<open>updatedAt\<close> (the
  host record's when the action has no remote record) as the concurrency token, and the
  host record's \<open>updatedAt\<close> as the new timestamp: \<^verbatim>\<open>now\<close> is not passed on.  A
  push without a host record calls nothing.  A pull does the same from remote to host.
\<close>

theorem push_pull_calls:
  "(action act = Push \<longrightarrow>
      actionCalls host remote crypto cr act now w =
        (case hostFile act of
           None \<Rightarrow> []
         | Some hostF \<Rightarrow>
             (HostSide, CallGetFileContent (path hostF)) #
             (case fst (fs_getFileContent host (path hostF) w) of
                Inl e \<Rightarrow> []
              | Inr buffer \<Rightarrow>
                  [(RemoteSide, CallUpdate (path hostF) buffer
                      (case remoteFile act of
                         Some remoteF \<Rightarrow> updatedAt remoteF
                       | None \<Rightarrow> updatedAt hostF)
                      (updatedAt hostF))]))) \<and>
   (action act = Pull \<longrightarrow>
      actionCalls host remote crypto cr act now w =
        (case remoteFile act of
           None \<Rightarrow> []
         | Some remoteF \<Rightarrow>
             (RemoteSide, CallGetFileContent (path remoteF)) #
             (case fst (fs_getFileContent remote (path remoteF) w) of
                Inl e \<Rightarrow> []
              | Inr buffer \<Rightarrow>
                  [(HostSide, CallUpdate (path remoteF) buffer
                      (case hostFile act of
                         Some hostF \<Rightarrow> updatedAt hostF
                       | None \<Rightarrow> updatedAt remoteF)
                      (updatedAt remoteF))])))"
proof (intro conjI impI)
  assume a: "action act = Push"
  show "actionCalls host remote crypto cr act now w =
        (case hostFile act of
           None \<Rightarrow> []
         | Some hostF \<Rightarrow>
             (HostSide, CallGetFileContent (path hostF)) #
             (case fst (fs_getFileContent host (path hostF) w) of
                Inl e \<Rightarrow> []
              | Inr buffer \<Rightarrow>
                  [(RemoteSide, CallUpdate (path hostF) buffer
                      (case remoteFile act of
                         Some remoteF \<Rightarrow> updatedAt remoteF
                       | None \<Rightarrow> updatedAt hostF)
                      (updatedAt hostF))]))"
    unfolding actionCalls_def applySyncAction_Push[OF a]
    by (cases "hostFile act")
       (auto simp: io_bind_apply io_return_def recording_simps record_call_apply
          split: sum.splits)
next
  assume a: "action act = Pull"
  show "actionCalls host remote crypto cr act now w =
        (case remoteFile act of
           None \<Rightarrow> []
         | Some remoteF \<Rightarrow>
             (RemoteSide, CallGetFileContent (path remoteF)) #
             (case fst (fs_getFileContent remote (path remoteF) w) of
                Inl e \<Rightarrow> []
              | Inr buffer \<Rightarrow>
                  [(HostSide, CallUpdate (path remoteF) buffer
                      (case hostFile act of
                         Some hostF \<Rightarrow> updatedAt hostF
                       | None \<Rightarrow> updatedAt remoteF)
                      (updatedAt remoteF))]))"
    unfolding actionCalls_def applySyncAction_Pull[OF a]
    by (cases "remoteFile act")
       (auto simp: io_bind_apply io_return_def recording_simps record_call_apply
          split: sum.splits)
qed


lemma onlyCalls_return: "onlyCalls Q (io_return a)"
  by (simp add: onlyCalls_def io_return_def)

lemma onlyCalls_lift: "onlyCalls Q (io_lift r)"
  by (simp add: onlyCalls_def io_lift_def)

lemma onlyCalls_record: "Q c \<Longrightarrow> onlyCalls Q (record_call c m)"
  by (simp add: onlyCalls_def record_call_apply)

lemma onlyCalls_bind:
  assumes m: "onlyCalls Q m" and f: "\<And>a. onlyCalls Q (f a)"
  shows "onlyCalls Q (io_bind m f)"
  unfolding onlyCalls_def
proof (intro allI)
  fix w log
  obtain r w1 log1 where run: "m (w, log) = (r, (w1, log1))"
    by (metis prod.exhaust)
  from m obtain calls1 where c1: "log1 = log @ calls1" "list_all Q calls1"
    unfolding onlyCalls_def using run by (metis snd_conv)
  show "\<exists>calls. snd (snd (io_bind m f (w, log))) = log @ calls \<and> list_all Q calls"
  proof (cases r)
    case (Inl e)
    then show ?thesis using run c1 by (simp add: io_bind_def)
  next
    case (Inr a)
    from f[of a] obtain calls2 where
      "snd (snd (f a (w1, log1))) = log1 @ calls2" "list_all Q calls2"
      unfolding onlyCalls_def by blast
    then show ?thesis using run c1 Inr by (simp add: io_bind_def)
  qed
qed

lemma onlyCalls_handleConflict:
  assumes "\<And>side p. Q (side, CallGetFileContent p)"
  shows "onlyCalls Q (handleConflict (recording HostSide host) (recording RemoteSide remote)
           crypto cr hostF remoteF)"
  unfolding handleConflict_def Let_def recording_simps
  by (intro onlyCalls_bind onlyCalls_record onlyCalls_lift assms)
     (simp add: onlyCalls_bind onlyCalls_lift onlyCalls_return)

lemma onlyCalls_Push:
  assumes "\<And>side p. Q (side, CallGetFileContent p)"
    and "\<And>side p buffer prev new. Q (side, CallUpdate p buffer prev new)"
    and "action act = Push \<or> action act = Pull"
  shows "onlyCalls Q (applySyncAction (recording HostSide host) (recording RemoteSide remote)
           crypto cr act now)"
proof (cases "action act = Push")
  case True
  show ?thesis
    unfolding applySyncAction_Push[OF True]
    by (cases "hostFile act")
       (simp_all add: recording_simps onlyCalls_return onlyCalls_bind onlyCalls_record assms(1,2))
next
  case False
  then have a: "action act = Pull" using assms(3) by simp
  show ?thesis
    unfolding applySyncAction_Pull[OF a]
    by (cases "remoteFile act")
       (simp_all add: recording_simps onlyCalls_return onlyCalls_bind onlyCalls_record assms(1,2))
qed

lemma onlyCalls_applySyncAction:
  assumes g: "\<And>side p. Q (side, CallGetFileContent p)"
    and u: "\<And>side p buffer prev new. Q (side, CallUpdate p buffer prev new)"
    and r: "\<And>side p prev now. Q (side, CallRemove p prev now)"
    and p: "\<And>p. Q (HostSide, CallPrune p)"
  shows "onlyCalls Q (applySyncAction (recording HostSide host) (recording RemoteSide remote)
           crypto cr act now)"
proof (cases "action act")
  case Prune
  show ?thesis
    unfolding applySyncAction_Prune[OF Prune]
    by (cases "hostFile act") (simp_all add: recording_simps onlyCalls_return onlyCalls_record p)
next
  case Remove
  show ?thesis
    unfolding applySyncAction_Remove[OF Remove]
    by (cases "hostFile act"; cases "remoteFile act")
       (simp_all add: recording_simps onlyCalls_return onlyCalls_bind onlyCalls_record r)
next
  case Push
  then show ?thesis by (simp add: onlyCalls_Push g u)
next
  case Pull
  then show ?thesis by (simp add: onlyCalls_Push g u)
next
  case Conflict
  show ?thesis
  proof (cases "hostFile act")
    case None
    then show ?thesis
      by (simp add: applySyncAction.simps[of _ _ _ _ act] Conflict onlyCalls_return)
  next
    case h: (Some hostF)
    show ?thesis
    proof (cases "remoteFile act")
      case None
      then show ?thesis
        by (simp add: applySyncAction.simps[of _ _ _ _ act] Conflict h onlyCalls_return)
    next
      case (Some remoteF)
      have redispatch: "onlyCalls Q (applySyncAction (recording HostSide host)
          (recording RemoteSide remote) crypto cr (act\<lparr>action := k\<rparr>) now)"
        if "k = Push \<or> k = Pull" for k
        using that by (intro onlyCalls_Push g u) simp
      have inner: "onlyCalls Q
        (case resolutionStrategy of
           Resolve \<Rightarrow>
             (case updatedData of
                Some buffer \<Rightarrow>
                  io_bind
                    (fs_update (recording RemoteSide remote) (path remoteF) buffer (updatedAt remoteF) now)
                    (\<lambda>_. fs_update (recording HostSide host) (path hostF) buffer (updatedAt hostF) now)
              | None \<Rightarrow> io_return ())
         | Ignore \<Rightarrow> io_return ()
         | Latest \<Rightarrow>
             applySyncAction (recording HostSide host) (recording RemoteSide remote) crypto cr
               (act\<lparr>action :=
                  (if updatedAt hostF < updatedAt remoteF then Pull else Push)\<rparr>) now
         | Oldest \<Rightarrow>
             applySyncAction (recording HostSide host) (recording RemoteSide remote) crypto cr
               (act\<lparr>action :=
                  (if updatedAt hostF < updatedAt remoteF then Push else Pull)\<rparr>) now
         | AlwaysPull \<Rightarrow>
             applySyncAction (recording HostSide host) (recording RemoteSide remote) crypto cr
               (act\<lparr>action := Pull\<rparr>) now
         | AlwaysPush \<Rightarrow>
             applySyncAction (recording HostSide host) (recording RemoteSide remote) crypto cr
               (act\<lparr>action := Push\<rparr>) now)"
        for resolutionStrategy updatedData
        by (cases resolutionStrategy; cases updatedData)
           (simp_all add: redispatch recording_simps onlyCalls_return onlyCalls_bind
              onlyCalls_record u)
      show ?thesis
        unfolding applySyncAction.simps[of _ _ _ _ act] Conflict h Some
        by (simp add: onlyCalls_bind onlyCalls_handleConflict g inner split_beta)
    qed
  qed
qed

lemma no_remote_prune:
  "(RemoteSide, CallPrune p) \<notin> set (actionCalls host remote crypto cr act now w)"
proof -
  let ?Q = "\<lambda>c. \<forall>q. c \<noteq> (RemoteSide, CallPrune q)"
  have "onlyCalls ?Q (applySyncAction (recording HostSide host) (recording RemoteSide remote)
           crypto cr act now)"
    by (rule onlyCalls_applySyncAction) simp_all
  then obtain calls where
    "actionCalls host remote crypto cr act now w = [] @ calls" and "list_all ?Q calls"
    unfolding onlyCalls_def actionCalls_def by blast
  then show ?thesis by (auto simp: list_all_iff)
qed

lemma prune_calls:
  "action act = Prune \<Longrightarrow>
   actionCalls host remote crypto cr act now w =
     (case hostFile act of Some hostF \<Rightarrow> [(HostSide, CallPrune (path hostF))] | None \<Rightarrow> [])"
  unfolding actionCalls_def
  by (cases "hostFile act")
     (simp_all add: applySyncAction_Prune io_return_def recording_simps record_call_apply)

text \<open>
  Claim C10.  A prune action calls \<^verbatim>\<open>prune\<close> on the host store, for the path of the
  action's host record, and calls nothing else; without a host record it calls nothing.
  No action of any kind makes the applier call the remote store's \<^verbatim>\<open>prune\<close>.  In
  particular, when host and remote both hold a tombstone for a path, the action planned
  for that path is a prune whose only call is the host's: the remote tombstone stays.
\<close>

theorem prune_host_only:
  "(action act = Prune \<longrightarrow>
      actionCalls host remote crypto cr act now w =
        (case hostFile act of
           Some hostF \<Rightarrow> [(HostSide, CallPrune (path hostF))]
         | None \<Rightarrow> [])) \<and>
   (\<forall>p. (RemoteSide, CallPrune p) \<notin> set (actionCalls host remote crypto cr act now w)) \<and>
   (distinct (map path remoteFiles) \<and> r \<in> set remoteFiles \<and> deleted r \<and>
    getFile hostFiles (path r) = Some h \<and> deleted h \<longrightarrow>
      map (\<lambda>a. (action a, actionCalls host remote crypto cr a now w))
        (actionsFor (path r) (createSyncAction hostFiles remoteFiles lsa)) =
      [(Prune, [(HostSide, CallPrune (path r))])])"
proof (intro conjI impI allI)
  assume "action act = Prune"
  then show "actionCalls host remote crypto cr act now w =
        (case hostFile act of
           Some hostF \<Rightarrow> [(HostSide, CallPrune (path hostF))]
         | None \<Rightarrow> [])"
    by (rule prune_calls)
next
  fix p
  show "(RemoteSide, CallPrune p) \<notin> set (actionCalls host remote crypto cr act now w)"
    by (rule no_remote_prune)
next
  assume a: "distinct (map path remoteFiles) \<and> r \<in> set remoteFiles \<and> deleted r \<and>
    getFile hostFiles (path r) = Some h \<and> deleted h"
  then have "map_of (syncActionMap hostFiles remoteFiles lsa) (path r) =
      Some (createAction (Some h) (Some r) Prune)"
    using remote_tombstone_some[of remoteFiles r hostFiles h lsa] by simp
  then have acts: "actionsFor (path r) (createSyncAction hostFiles remoteFiles lsa) =
      [createAction (Some h) (Some r) Prune]"
    by (simp add: actionsFor_createSyncAction)
  have "path h = path r" using a getFile_path[of hostFiles "path r" h] by simp
  then show "map (\<lambda>a. (action a, actionCalls host remote crypto cr a now w))
        (actionsFor (path r) (createSyncAction hostFiles remoteFiles lsa)) =
      [(Prune, [(HostSide, CallPrune (path r))])]"
    unfolding acts by (simp add: prune_calls createAction_def)
qed

lemma actionCalls_eval:
  "actionCalls host remote crypto cr act now w =
     snd (snd (applySyncAction (recording HostSide host) (recording RemoteSide remote)
                 crypto cr act now (w, [])))"
  by (simp add: actionCalls_def)

theorem prune_host_only_witness:
  "actionCalls (constStore [] ''h'' (Inr ())) (constStore [] ''r'' (Inr ())) plainCrypto
     (plainResolver Ignore)
     \<lparr>hostFile = Some \<lparr>path = ''x.txt'', size_bytes = 0, createdAt = 60, updatedAt = 60, deletedAt = 60, deleted = True\<rparr>,
      remoteFile = Some \<lparr>path = ''x.txt'', size_bytes = 0, createdAt = 50, updatedAt = 50, deletedAt = 50, deleted = True\<rparr>,
      action = Prune\<rparr> 500 () = [(HostSide, CallPrune ''x.txt'')] \<and>
   (RemoteSide, CallPrune ''x.txt'') \<notin> set
     (actionCalls (constStore [] ''h'' (Inr ())) (constStore [] ''r'' (Inr ())) plainCrypto
        (plainResolver Ignore)
        \<lparr>hostFile = Some \<lparr>path = ''x.txt'', size_bytes = 0, createdAt = 60, updatedAt = 60, deletedAt = 60, deleted = True\<rparr>,
         remoteFile = Some \<lparr>path = ''x.txt'', size_bytes = 0, createdAt = 50, updatedAt = 50, deletedAt = 50, deleted = True\<rparr>,
         action = Prune\<rparr> 500 ()) \<and>
   map (\<lambda>a. (action a,
          actionCalls (constStore [] ''h'' (Inr ())) (constStore [] ''r'' (Inr ())) plainCrypto
            (plainResolver Ignore) a 500 ()))
     (actionsFor ''x.txt''
        (createSyncAction
           [\<lparr>path = ''x.txt'', size_bytes = 0, createdAt = 60, updatedAt = 60, deletedAt = 60, deleted = True\<rparr>]
           [\<lparr>path = ''x.txt'', size_bytes = 0, createdAt = 50, updatedAt = 50, deletedAt = 50, deleted = True\<rparr>]
           0)) =
     [(Prune, [(HostSide, CallPrune ''x.txt'')])]"
  using prune_host_only[where
      act = "\<lparr>hostFile = Some \<lparr>path = ''x.txt'', size_bytes = 0, createdAt = 60, updatedAt = 60, deletedAt = 60, deleted = True\<rparr>,
         remoteFile = Some \<lparr>path = ''x.txt'', size_bytes = 0, createdAt = 50, updatedAt = 50, deletedAt = 50, deleted = True\<rparr>,
         action = Prune\<rparr>"
      and host = "constStore [] ''h'' (Inr ())" and remote = "constStore [] ''r'' (Inr ())"
      and crypto = plainCrypto and cr = "plainResolver Ignore" and now = 500 and w = "()"
      and remoteFiles = "[\<lparr>path = ''x.txt'', size_bytes = 0, createdAt = 50, updatedAt = 50, deletedAt = 50, deleted = True\<rparr>]"
      and r = "\<lparr>path = ''x.txt'', size_bytes = 0, createdAt = 50, updatedAt = 50, deletedAt = 50, deleted = True\<rparr>"
      and hostFiles = "[\<lparr>path = ''x.txt'', size_bytes = 0, createdAt = 60, updatedAt = 60, deletedAt = 60, deleted = True\<rparr>]"
      and h = "\<lparr>path = ''x.txt'', size_bytes = 0, createdAt = 60, updatedAt = 60, deletedAt = 60, deleted = True\<rparr>"
      and lsa = 0]
  by (simp add: getFile_def)


lemma constStore_simps:
  "fs_getFiles (constStore files buffer outcome) w = (Inr files, w)"
  "fs_getFileContent (constStore files buffer outcome) p w = (Inr buffer, w)"
  "fs_update (constStore files buffer outcome) p b prev new w = (outcome, w)"
  "fs_remove (constStore files buffer outcome) p prev now w = (outcome, w)"
  "fs_prune (constStore files buffer outcome) p w = (outcome, w)"
  by (simp_all add: constStore_def io_return_def io_lift_def)

theorem remove_remote_first_witness:
  "actionCalls (constStore [] ''host data'' (Inr ())) (constStore [] ''remote data'' (Inr ())) plainCrypto (plainResolver Ignore)
     \<lparr>hostFile = Some \<lparr>path = ''a.bin'', size_bytes = 4, createdAt = 40, updatedAt = 100, deletedAt = 100, deleted = False\<rparr>, remoteFile = Some \<lparr>path = ''a.bin'', size_bytes = 0, createdAt = 150, updatedAt = 150, deletedAt = 150, deleted = True\<rparr>, action = Remove\<rparr> 500 () =
     [(RemoteSide, CallRemove ''a.bin'' 150 500), (HostSide, CallRemove ''a.bin'' 100 500)] \<and>
   actionCalls (constStore [] ''host data'' (Inr ())) (constStore [] ''remote data'' (Inl (StoreError ''offline''))) plainCrypto (plainResolver Ignore)
     \<lparr>hostFile = Some \<lparr>path = ''a.bin'', size_bytes = 4, createdAt = 40, updatedAt = 100, deletedAt = 100, deleted = False\<rparr>, remoteFile = Some \<lparr>path = ''a.bin'', size_bytes = 0, createdAt = 150, updatedAt = 150, deletedAt = 150, deleted = True\<rparr>, action = Remove\<rparr> 500 () =
     [(RemoteSide, CallRemove ''a.bin'' 150 500)] \<and>
   \<not> (\<exists>pre c mid c' post.
         actionCalls (constStore [] ''host data'' (Inr ())) (constStore [] ''remote data'' (Inr ())) plainCrypto (plainResolver Ignore)
     \<lparr>hostFile = Some \<lparr>path = ''a.bin'', size_bytes = 4, createdAt = 40, updatedAt = 100, deletedAt = 100, deleted = False\<rparr>, remoteFile = Some \<lparr>path = ''a.bin'', size_bytes = 0, createdAt = 150, updatedAt = 150, deletedAt = 150, deleted = True\<rparr>, action = Remove\<rparr> 500 () =
           pre @ (HostSide, c) # mid @ (RemoteSide, c') # post)"
proof -
  have kind: "action \<lparr>hostFile = Some \<lparr>path = ''a.bin'', size_bytes = 4, createdAt = 40, updatedAt = 100, deletedAt = 100, deleted = False\<rparr>, remoteFile = Some \<lparr>path = ''a.bin'', size_bytes = 0, createdAt = 150, updatedAt = 150, deletedAt = 150, deleted = True\<rparr>, action = Remove\<rparr> = Remove"
    by simp
  note ok = remove_remote_first[where host = "constStore [] ''host data'' (Inr ())"
      and remote = "constStore [] ''remote data'' (Inr ())"
      and crypto = plainCrypto and cr = "plainResolver Ignore" and now = 500 and w = "()", OF kind]
  note bad = remove_remote_first[where host = "constStore [] ''host data'' (Inr ())"
      and remote = "constStore [] ''remote data'' (Inl (StoreError ''offline''))"
      and crypto = plainCrypto and cr = "plainResolver Ignore" and now = 500 and w = "()", OF kind]
  show ?thesis
  proof (intro conjI)
    show "actionCalls (constStore [] ''host data'' (Inr ())) (constStore [] ''remote data'' (Inr ())) plainCrypto (plainResolver Ignore)
     \<lparr>hostFile = Some \<lparr>path = ''a.bin'', size_bytes = 4, createdAt = 40, updatedAt = 100, deletedAt = 100, deleted = False\<rparr>, remoteFile = Some \<lparr>path = ''a.bin'', size_bytes = 0, createdAt = 150, updatedAt = 150, deletedAt = 150, deleted = True\<rparr>, action = Remove\<rparr> 500 () =
     [(RemoteSide, CallRemove ''a.bin'' 150 500), (HostSide, CallRemove ''a.bin'' 100 500)]"
      using ok[THEN conjunct1] by (simp add: constStore_simps)
    show "actionCalls (constStore [] ''host data'' (Inr ())) (constStore [] ''remote data'' (Inl (StoreError ''offline''))) plainCrypto (plainResolver Ignore)
     \<lparr>hostFile = Some \<lparr>path = ''a.bin'', size_bytes = 4, createdAt = 40, updatedAt = 100, deletedAt = 100, deleted = False\<rparr>, remoteFile = Some \<lparr>path = ''a.bin'', size_bytes = 0, createdAt = 150, updatedAt = 150, deletedAt = 150, deleted = True\<rparr>, action = Remove\<rparr> 500 () =
     [(RemoteSide, CallRemove ''a.bin'' 150 500)]"
      using bad[THEN conjunct1] by (simp add: constStore_simps)
    show "\<not> (\<exists>pre c mid c' post.
         actionCalls (constStore [] ''host data'' (Inr ())) (constStore [] ''remote data'' (Inr ())) plainCrypto (plainResolver Ignore)
     \<lparr>hostFile = Some \<lparr>path = ''a.bin'', size_bytes = 4, createdAt = 40, updatedAt = 100, deletedAt = 100, deleted = False\<rparr>, remoteFile = Some \<lparr>path = ''a.bin'', size_bytes = 0, createdAt = 150, updatedAt = 150, deletedAt = 150, deleted = True\<rparr>, action = Remove\<rparr> 500 () =
           pre @ (HostSide, c) # mid @ (RemoteSide, c') # post)"
      by (rule ok[THEN conjunct2])
  qed
qed

theorem push_pull_calls_witness:
  "actionCalls (constStore [] ''host data'' (Inr ())) (constStore [] ''remote data'' (Inr ())) plainCrypto (plainResolver Ignore)
     \<lparr>hostFile = Some \<lparr>path = ''a.bin'', size_bytes = 4, createdAt = 40, updatedAt = 100, deletedAt = 100, deleted = False\<rparr>, remoteFile = Some \<lparr>path = ''a.bin'', size_bytes = 4, createdAt = 30, updatedAt = 80, deletedAt = 80, deleted = False\<rparr>, action = Push\<rparr> 500 () =
     [(HostSide, CallGetFileContent ''a.bin''),
      (RemoteSide, CallUpdate ''a.bin'' ''host data'' 80 100)] \<and>
   actionCalls (constStore [] ''host data'' (Inr ())) (constStore [] ''remote data'' (Inr ())) plainCrypto (plainResolver Ignore)
     \<lparr>hostFile = Some \<lparr>path = ''a.bin'', size_bytes = 4, createdAt = 40, updatedAt = 100, deletedAt = 100, deleted = False\<rparr>, remoteFile = None, action = Push\<rparr> 500 () =
     [(HostSide, CallGetFileContent ''a.bin''),
      (RemoteSide, CallUpdate ''a.bin'' ''host data'' 100 100)] \<and>
   actionCalls (constStore [] ''host data'' (Inr ())) (constStore [] ''remote data'' (Inr ())) plainCrypto (plainResolver Ignore)
     \<lparr>hostFile = Some \<lparr>path = ''a.bin'', size_bytes = 4, createdAt = 30, updatedAt = 80, deletedAt = 80, deleted = False\<rparr>, remoteFile = Some \<lparr>path = ''a.bin'', size_bytes = 4, createdAt = 40, updatedAt = 100, deletedAt = 100, deleted = False\<rparr>, action = Pull\<rparr> 500 () =
     [(RemoteSide, CallGetFileContent ''a.bin''),
      (HostSide, CallUpdate ''a.bin'' ''remote data'' 80 100)]"
  using
    push_pull_calls[where act = "\<lparr>hostFile = Some \<lparr>path = ''a.bin'', size_bytes = 4, createdAt = 40, updatedAt = 100, deletedAt = 100, deleted = False\<rparr>, remoteFile = Some \<lparr>path = ''a.bin'', size_bytes = 4, createdAt = 30, updatedAt = 80, deletedAt = 80, deleted = False\<rparr>, action = Push\<rparr>"
      and host = "constStore [] ''host data'' (Inr ())"
      and remote = "constStore [] ''remote data'' (Inr ())"
      and crypto = plainCrypto and cr = "plainResolver Ignore" and now = 500 and w = "()"]
    push_pull_calls[where act = "\<lparr>hostFile = Some \<lparr>path = ''a.bin'', size_bytes = 4, createdAt = 40, updatedAt = 100, deletedAt = 100, deleted = False\<rparr>, remoteFile = None, action = Push\<rparr>"
      and host = "constStore [] ''host data'' (Inr ())"
      and remote = "constStore [] ''remote data'' (Inr ())"
      and crypto = plainCrypto and cr = "plainResolver Ignore" and now = 500 and w = "()"]
    push_pull_calls[where act = "\<lparr>hostFile = Some \<lparr>path = ''a.bin'', size_bytes = 4, createdAt = 30, updatedAt = 80, deletedAt = 80, deleted = False\<rparr>, remoteFile = Some \<lparr>path = ''a.bin'', size_bytes = 4, createdAt = 40, updatedAt = 100, deletedAt = 100, deleted = False\<rparr>, action = Pull\<rparr>"
      and host = "constStore [] ''host data'' (Inr ())"
      and remote = "constStore [] ''remote data'' (Inr ())"
      and crypto = plainCrypto and cr = "plainResolver Ignore" and now = 500 and w = "()"]
  by (simp add: constStore_simps)

text \<open>
  The claim as first stated (the new timestamp of a push is \<^verbatim>\<open>now\<close>) fails: pushing a
  host file updated at 100 in a pass whose \<^verbatim>\<open>now\<close> is 500 writes the remote copy with
  the timestamp 100.
\<close>

theorem push_pull_calls_counterexample:
  "actionCalls (constStore [] ''host data'' (Inr ())) (constStore [] ''remote data'' (Inr ())) plainCrypto (plainResolver Ignore)
     \<lparr>hostFile = Some \<lparr>path = ''a.bin'', size_bytes = 4, createdAt = 40, updatedAt = 100, deletedAt = 100, deleted = False\<rparr>, remoteFile = None, action = Push\<rparr> 500 () =
     [(HostSide, CallGetFileContent ''a.bin''),
      (RemoteSide, CallUpdate ''a.bin'' ''host data'' 100 100)] \<and>
   (RemoteSide, CallUpdate ''a.bin'' ''host data'' 100 500) \<notin> set
     (actionCalls (constStore [] ''host data'' (Inr ())) (constStore [] ''remote data'' (Inr ())) plainCrypto (plainResolver Ignore)
     \<lparr>hostFile = Some \<lparr>path = ''a.bin'', size_bytes = 4, createdAt = 40, updatedAt = 100, deletedAt = 100, deleted = False\<rparr>, remoteFile = None, action = Push\<rparr> 500 ())"
  by (simp add: actionCalls_def applySyncAction.simps constStore_def recording_def
        record_call_def io_bind_def io_return_def io_lift_def)

section \<open>Properties of the sync pass\<close>

lemma on_stores_apply:
  "on_stores m s = (fst (m (stores s)), s\<lparr>stores := snd (m (stores s))\<rparr>)"
  by (simp add: on_stores_def split: prod.splits)

lemma on_stores_settings: "this_settings (snd (on_stores m s)) = this_settings s"
  by (simp add: on_stores_apply)

lemma applyActions_failing:
  assumes "applyActions host remote crypto cr pre now w = (Inr (), wa)"
    and "applySyncAction host remote crypto cr a now wa = (Inl e, wb)"
  shows "applyActions host remote crypto cr (pre @ a # post) now w = (Inl e, wb)"
  using assms
proof (induction pre arbitrary: w)
  case Nil
  then show ?case by (simp add: io_return_def io_bind_def)
next
  case (Cons b pre)
  obtain r w1 where b: "applySyncAction host remote crypto cr b now w = (r, w1)"
    by (cases "applySyncAction host remote crypto cr b now w")
  show ?case
  proof (cases r)
    case (Inl e')
    then show ?thesis using Cons.prems(1) b by (simp add: io_bind_def)
  next
    case (Inr u)
    then have "applyActions host remote crypto cr pre now w1 = (Inr (), wa)"
      using Cons.prems(1) b by (simp add: io_bind_def)
    then have "applyActions host remote crypto cr (pre @ a # post) now w1 = (Inl e, wb)"
      using Cons.IH Cons.prems(2) by blast
    then show ?thesis using b Inr by (simp add: io_bind_def)
  qed
qed

lemma sync_unfold:
  "sync host remote crypto mm rc minimatch_dot now s0 =
     (let s = s0\<lparr>this_last_synced_at :=
                  (case last_synced_at (this_settings s0) of Some t \<Rightarrow> t | None \<Rightarrow> 0)\<rparr>
      in case fs_getFiles host (stores s0) of
           (Inl e, w1) \<Rightarrow> (Inl e, s\<lparr>stores := w1\<rparr>)
         | (Inr hostFiles, w1) \<Rightarrow>
             (case fs_getFiles remote w1 of
                (Inl e, w2) \<Rightarrow> (Inl e, s\<lparr>stores := w2\<rparr>)
              | (Inr remoteFiles, w2) \<Rightarrow>
                  (case applyActions host remote crypto
                          \<lparr>resolver_minimatch = mm, resolver_reconcile = rc,
                             resolver_settings = this_settings s0\<rparr>
                          (createSyncAction hostFiles
                             (filter (\<lambda>file. \<not> isFileExcluded minimatch_dot (path file)
                                (excludePatternList (exclude_globs (this_settings s0)))) remoteFiles)
                             (case last_synced_at (this_settings s0) of Some t \<Rightarrow> t | None \<Rightarrow> 0))
                          now w2 of
                     (Inl e, w3) \<Rightarrow> (Inl e, s\<lparr>stores := w3\<rparr>)
                   | (Inr u, w3) \<Rightarrow>
                       (Inr (), s\<lparr>stores := w3,
                          this_settings := updateSettings_last_synced_at now (this_settings s0)\<rparr>))))"
  by (simp add: sync_def Let_def io_bind_def on_stores_def split: prod.splits sum.splits)

text \<open>
  Claim C9.  A pass that returns normally leaves the settings as they were but for
  \<open>last_synced_at\<close>, which is the pass's \<open>now\<close>; a pass that throws leaves the
  settings, the watermark with them, as they were.  In particular, when both
  enumerations succeed and the plan is \<open>pre @ a # post\<close>, the actions of \<open>pre\<close> are
  applied and \<open>a\<close> throws, the pass throws that error, with the stores as \<open>a\<close> left them
  and the settings untouched.  And applying any list of actions leaves the settings
  alone: the only write is the one that ends a pass.
\<close>

theorem sync_watermark:
  "(case fst (sync host remote crypto mm rc minimatch_dot now s) of
      Inr u \<Rightarrow>
        this_settings (snd (sync host remote crypto mm rc minimatch_dot now s)) =
          (this_settings s)\<lparr>last_synced_at := Some now\<rparr>
    | Inl e \<Rightarrow>
        this_settings (snd (sync host remote crypto mm rc minimatch_dot now s)) = this_settings s) \<and>
   (fs_getFiles host (stores s) = (Inr hostFiles, w1) \<and>
    fs_getFiles remote w1 = (Inr remoteFiles, w2) \<and>
    createSyncAction hostFiles
      (filter (\<lambda>file. \<not> isFileExcluded minimatch_dot (path file)
         (excludePatternList (exclude_globs (this_settings s)))) remoteFiles)
      (case last_synced_at (this_settings s) of Some t \<Rightarrow> t | None \<Rightarrow> 0) = pre @ a # post \<and>
    applyActions host remote crypto
      \<lparr>resolver_minimatch = mm, resolver_reconcile = rc, resolver_settings = this_settings s\<rparr>
      pre now w2 = (Inr (), wa) \<and>
    applySyncAction host remote crypto
      \<lparr>resolver_minimatch = mm, resolver_reconcile = rc, resolver_settings = this_settings s\<rparr>
      a now wa = (Inl e, wb)
    \<longrightarrow> fst (sync host remote crypto mm rc minimatch_dot now s) = Inl e \<and>
        this_settings (snd (sync host remote crypto mm rc minimatch_dot now s)) = this_settings s \<and>
        stores (snd (sync host remote crypto mm rc minimatch_dot now s)) = wb) \<and>
   this_settings (snd (on_stores (applyActions host remote crypto cr acts now) s)) = this_settings s"
proof (intro conjI impI)
  show "case fst (sync host remote crypto mm rc minimatch_dot now s) of
      Inr u \<Rightarrow>
        this_settings (snd (sync host remote crypto mm rc minimatch_dot now s)) =
          (this_settings s)\<lparr>last_synced_at := Some now\<rparr>
    | Inl e \<Rightarrow>
        this_settings (snd (sync host remote crypto mm rc minimatch_dot now s)) = this_settings s"
    unfolding sync_unfold Let_def
    by (simp add: updateSettings_last_synced_at_def split: prod.splits sum.splits)
next
  assume a: "fs_getFiles host (stores s) = (Inr hostFiles, w1) \<and>
    fs_getFiles remote w1 = (Inr remoteFiles, w2) \<and>
    createSyncAction hostFiles
      (filter (\<lambda>file. \<not> isFileExcluded minimatch_dot (path file)
         (excludePatternList (exclude_globs (this_settings s)))) remoteFiles)
      (case last_synced_at (this_settings s) of Some t \<Rightarrow> t | None \<Rightarrow> 0) = pre @ a # post \<and>
    applyActions host remote crypto
      \<lparr>resolver_minimatch = mm, resolver_reconcile = rc, resolver_settings = this_settings s\<rparr>
      pre now w2 = (Inr (), wa) \<and>
    applySyncAction host remote crypto
      \<lparr>resolver_minimatch = mm, resolver_reconcile = rc, resolver_settings = this_settings s\<rparr>
      a now wa = (Inl e, wb)"
  have fail: "applyActions host remote crypto
      \<lparr>resolver_minimatch = mm, resolver_reconcile = rc, resolver_settings = this_settings s\<rparr>
      (pre @ a # post) now w2 = (Inl e, wb)"
    by (intro applyActions_failing) (rule a[THEN conjunct2, THEN conjunct2, THEN conjunct2, THEN conjunct1],
        rule a[THEN conjunct2, THEN conjunct2, THEN conjunct2, THEN conjunct2])
  have run: "sync host remote crypto mm rc minimatch_dot now s =
      (Inl e, s\<lparr>this_last_synced_at :=
                  (case last_synced_at (this_settings s) of Some t \<Rightarrow> t | None \<Rightarrow> 0),
                stores := wb\<rparr>)"
    unfolding sync_unfold Let_def using a fail by simp
  show "fst (sync host remote crypto mm rc minimatch_dot now s) = Inl e"
    and "this_settings (snd (sync host remote crypto mm rc minimatch_dot now s)) = this_settings s"
    and "stores (snd (sync host remote crypto mm rc minimatch_dot now s)) = wb"
    by (simp_all add: run)
next
  show "this_settings (snd (on_stores (applyActions host remote crypto cr acts now) s)) = this_settings s"
    by (rule on_stores_settings)
qed


theorem sync_watermark_witness:
  "fst (sync (constStore [\<lparr>path = ''a.bin'', size_bytes = 4, createdAt = 40, updatedAt = 200, deletedAt = 200, deleted = False\<rparr>] ''host data'' (Inr ())) (constStore [] ''remote data'' (Inl (StoreError ''offline''))) plainCrypto
       (\<lambda>p g. p = g) (\<lambda>original left right. right) (\<lambda>p g. Some (p = g)) 500
       \<lparr>this_last_synced_at = 0,
        this_settings = \<lparr>last_synced_at = Some 100, exclude_globs = ''**/.paintress'', resolution_strategies = [],
          fallback_conflict_resolution_strategy = Latest, sync_internal_files = False\<rparr>,
        stores = ()\<rparr>) = Inl (StoreError ''offline'') \<and>
   last_synced_at (this_settings (snd (sync (constStore [\<lparr>path = ''a.bin'', size_bytes = 4, createdAt = 40, updatedAt = 200, deletedAt = 200, deleted = False\<rparr>] ''host data'' (Inr ())) (constStore [] ''remote data'' (Inl (StoreError ''offline''))) plainCrypto
       (\<lambda>p g. p = g) (\<lambda>original left right. right) (\<lambda>p g. Some (p = g)) 500
       \<lparr>this_last_synced_at = 0,
        this_settings = \<lparr>last_synced_at = Some 100, exclude_globs = ''**/.paintress'', resolution_strategies = [],
          fallback_conflict_resolution_strategy = Latest, sync_internal_files = False\<rparr>,
        stores = ()\<rparr>))) = Some 100 \<and>
   fst (sync (constStore [\<lparr>path = ''a.bin'', size_bytes = 4, createdAt = 40, updatedAt = 200, deletedAt = 200, deleted = False\<rparr>] ''host data'' (Inr ())) (constStore [] ''remote data'' (Inr ())) plainCrypto
       (\<lambda>p g. p = g) (\<lambda>original left right. right) (\<lambda>p g. Some (p = g)) 500
       \<lparr>this_last_synced_at = 0,
        this_settings = \<lparr>last_synced_at = Some 100, exclude_globs = ''**/.paintress'', resolution_strategies = [],
          fallback_conflict_resolution_strategy = Latest, sync_internal_files = False\<rparr>,
        stores = ()\<rparr>) = Inr () \<and>
   last_synced_at (this_settings (snd (sync (constStore [\<lparr>path = ''a.bin'', size_bytes = 4, createdAt = 40, updatedAt = 200, deletedAt = 200, deleted = False\<rparr>] ''host data'' (Inr ())) (constStore [] ''remote data'' (Inr ())) plainCrypto
       (\<lambda>p g. p = g) (\<lambda>original left right. right) (\<lambda>p g. Some (p = g)) 500
       \<lparr>this_last_synced_at = 0,
        this_settings = \<lparr>last_synced_at = Some 100, exclude_globs = ''**/.paintress'', resolution_strategies = [],
          fallback_conflict_resolution_strategy = Latest, sync_internal_files = False\<rparr>,
        stores = ()\<rparr>))) = Some 500"
proof -
  let ?H = "\<lparr>path = ''a.bin'', size_bytes = 4, createdAt = 40, updatedAt = 200, deletedAt = 200, deleted = False\<rparr>"
  let ?S = "\<lparr>this_last_synced_at = 0,
        this_settings = \<lparr>last_synced_at = Some 100, exclude_globs = ''**/.paintress'', resolution_strategies = [],
          fallback_conflict_resolution_strategy = Latest, sync_internal_files = False\<rparr>,
        stores = ()\<rparr>"
  let ?host = "constStore [?H] ''host data'' (Inr ()) :: unit FileSystem"
  let ?bad = "constStore [] ''remote data'' (Inl (StoreError ''offline'')) :: unit FileSystem"
  let ?ok = "constStore [] ''remote data'' (Inr ()) :: unit FileSystem"
  let ?cr = "\<lparr>resolver_minimatch = (\<lambda>p g. p = g), resolver_reconcile = (\<lambda>original left right. right),
      resolver_settings = this_settings ?S\<rparr>"
  let ?push = "\<lparr>hostFile = Some ?H, remoteFile = None, action = Push\<rparr>"
  have plan: "createSyncAction [?H]
      (filter (\<lambda>file. \<not> isFileExcluded (\<lambda>p g. Some (p = g)) (path file)
         (excludePatternList (exclude_globs (this_settings ?S)))) [])
      (case last_synced_at (this_settings ?S) of Some t \<Rightarrow> t | None \<Rightarrow> 0) = [] @ ?push # []"
    by (simp add: createSyncAction_def syncActionMap_def hostModifiedStep_def getFile_def
          set_action_def createAction_def)
  have pre: "applyActions ?host r plainCrypto ?cr [] 500 () = (Inr (), ())" for r
    by (simp add: io_return_def)
  have fails: "applySyncAction ?host ?bad plainCrypto ?cr ?push 500 () = (Inl (StoreError ''offline''), ())"
    by (simp add: applySyncAction_Push io_bind_def constStore_simps)
  have works: "applyActions ?host ?ok plainCrypto ?cr ([] @ ?push # []) 500 () = (Inr (), ())"
    by (simp add: applySyncAction_Push io_bind_def io_return_def constStore_simps)
  have bad: "fst (sync ?host ?bad plainCrypto (\<lambda>p g. p = g) (\<lambda>original left right. right)
      (\<lambda>p g. Some (p = g)) 500 ?S) = Inl (StoreError ''offline'') \<and>
    this_settings (snd (sync ?host ?bad plainCrypto (\<lambda>p g. p = g) (\<lambda>original left right. right)
      (\<lambda>p g. Some (p = g)) 500 ?S)) = this_settings ?S"
    using sync_watermark[where host = ?host and remote = ?bad and crypto = plainCrypto
        and mm = "\<lambda>p g. p = g" and rc = "\<lambda>original left right. right"
        and minimatch_dot = "\<lambda>p g. Some (p = g)" and now = 500 and s = ?S
        and hostFiles = "[?H]" and ?w1.0 = "()" and remoteFiles = "[]" and ?w2.0 = "()"
        and pre = "[]" and a = ?push and post = "[]" and wa = "()"
        and e = "StoreError ''offline''" and wb = "()", THEN conjunct2, THEN conjunct1]
      plan pre[of ?bad] fails
    by (simp add: constStore_simps)
  have ok_run: "fst (sync ?host ?ok plainCrypto (\<lambda>p g. p = g) (\<lambda>original left right. right)
      (\<lambda>p g. Some (p = g)) 500 ?S) = Inr ()"
    unfolding sync_unfold Let_def using plan works by (simp add: constStore_simps)
  have ok: "this_settings (snd (sync ?host ?ok plainCrypto (\<lambda>p g. p = g) (\<lambda>original left right. right)
      (\<lambda>p g. Some (p = g)) 500 ?S)) = (this_settings ?S)\<lparr>last_synced_at := Some 500\<rparr>"
    using sync_watermark[where host = ?host and remote = ?ok and crypto = plainCrypto
        and mm = "\<lambda>p g. p = g" and rc = "\<lambda>original left right. right"
        and minimatch_dot = "\<lambda>p g. Some (p = g)" and now = 500 and s = ?S, THEN conjunct1]
    unfolding ok_run by simp
  show ?thesis using bad ok_run ok by simp
qed

section \<open>The plan is pointwise\<close>

lemma getFile_filter:
  assumes "distinct (map path fs)"
  shows "getFile (filter P fs) p =
     (case getFile fs p of None \<Rightarrow> None | Some f \<Rightarrow> if P f then Some f else None)"
proof (cases "getFile fs p")
  case None
  then have "\<forall>f \<in> set (filter P fs). path f \<noteq> p" by (simp add: getFile_None)
  then have "getFile (filter P fs) p = None" by (simp only: getFile_None)
  then show ?thesis using None by simp
next
  case (Some f)
  then have f: "path f = p" "f \<in> set fs" by (simp_all add: getFile_path)
  show ?thesis
  proof (cases "P f")
    case True
    have "distinct (map path (filter P fs))" using assms by (rule distinct_map_filter)
    moreover have "f \<in> set (filter P fs)" using f True by simp
    ultimately have "getFile (filter P fs) (path f) = Some f" by (rule getFile_distinct)
    then show ?thesis using Some True f by simp
  next
    case False
    have "\<forall>g \<in> set (filter P fs). path g \<noteq> p"
    proof
      fix g assume g: "g \<in> set (filter P fs)"
      show "path g \<noteq> p"
      proof
        assume "path g = p"
        then have "g = f" using distinct_path_eq[OF assms _ f(2), of g] g f(1) by simp
        then show False using g False by simp
      qed
    qed
    then have "getFile (filter P fs) p = None" by (simp only: getFile_None)
    then show ?thesis using Some False by simp
  qed
qed

lemma keyed_fold_at:
  assumes k: "keyedStep stp"
    and d: "distinct (map path fs)"
    and f: "f \<in> set fs"
    and m: "map_of m (path f) = None"
    and s: "\<And>m'. map_of m' (path f) = None \<Longrightarrow> map_of (stp f m') (path f) = out"
  shows "map_of (fold stp fs m) (path f) = out"
proof (cases out)
  case (Some a)
  then show ?thesis using keyed_fold_set[OF k d f m] s by simp
next
  case None
  from f obtain xs ys where fs: "fs = xs @ f # ys" by (auto dest: split_list)
  have nx: "\<And>g. g \<in> set xs \<Longrightarrow> path g \<noteq> path f"
    and ny: "\<And>g. g \<in> set ys \<Longrightarrow> path g \<noteq> path f"
    using d unfolding fs by (auto simp: image_iff)
  have "map_of (fold stp xs m) (path f) = map_of m (path f)"
    by (rule keyed_fold_skip[OF k]) (simp add: nx)
  then have "map_of (stp f (fold stp xs m)) (path f) = None"
    using m s None by simp
  moreover have "map_of (fold stp ys (stp f (fold stp xs m))) (path f) =
      map_of (stp f (fold stp xs m)) (path f)"
    by (rule keyed_fold_skip[OF k]) (simp add: ny)
  ultimately show ?thesis using None by (simp add: fs)
qed

lemma keyed_fold_pointwise:
  assumes k: "keyedStep stp"
    and d: "distinct (map path fs)"
    and s: "\<And>f m'. f \<in> set fs \<Longrightarrow> path f = p \<Longrightarrow> map_of m' p = None
              \<Longrightarrow> map_of (stp f m') p = out f"
  shows "map_of (fold stp fs m) p =
     orElse (map_of m p) (case getFile fs p of None \<Rightarrow> None | Some f \<Rightarrow> out f)"
proof (cases "map_of m p")
  case (Some a)
  then show ?thesis using keyed_fold_keep[OF k] by (simp add: orElse_def)
next
  case None
  show ?thesis
  proof (cases "getFile fs p")
    case n: None
    have "map_of (fold stp fs m) p = map_of m p"
      by (rule keyed_fold_skip[OF k]) (use n in \<open>simp add: getFile_None\<close>)
    then show ?thesis using None n by (simp add: orElse_def)
  next
    case (Some f)
    then have f: "path f = p" "f \<in> set fs" by (simp_all add: getFile_path)
    have "map_of (fold stp fs m) (path f) = out f"
      by (rule keyed_fold_at[OF k d f(2)]) (use None f s in auto)
    then show ?thesis using None Some f by (simp add: orElse_def)
  qed
qed

lemma remoteDeletedStep_at:
  assumes "deleted r" and "map_of m (path r) = None"
  shows "map_of (remoteDeletedStep hostFiles r m) (path r) =
     remoteDeletedChoice (getFile hostFiles (path r)) (Some r)"
proof (cases "getFile hostFiles (path r)")
  case None
  then show ?thesis using assms by (simp add: remoteDeletedStep_def remoteDeletedChoice_def)
next
  case (Some h)
  then have "path h = path r" by (simp add: getFile_path)
  then show ?thesis
    using assms Some by (simp add: remoteDeletedStep_def remoteDeletedChoice_def map_of_set_action)
qed

lemma hostDeletedStep_at:
  assumes "deleted h" and "map_of m (path h) = None"
  shows "map_of (hostDeletedStep remoteFiles h m) (path h) =
     hostDeletedChoice (Some h) (getFile remoteFiles (path h))"
proof (cases "getFile remoteFiles (path h)")
  case None
  then show ?thesis
    using assms by (simp add: hostDeletedStep_def hostDeletedChoice_def map_of_set_action)
next
  case (Some r)
  then have "path r = path h" by (simp add: getFile_path)
  then show ?thesis
    using assms Some by (simp add: hostDeletedStep_def hostDeletedChoice_def map_of_set_action)
qed

lemma hostModifiedStep_at:
  assumes "\<not> deleted h" and "map_of m (path h) = None"
  shows "map_of (hostModifiedStep remoteFiles w h m) (path h) =
     hostModifiedChoice w (Some h) (getFile remoteFiles (path h))"
  using assms
  by (cases "getFile remoteFiles (path h)")
     (simp_all add: hostModifiedStep_def hostModifiedChoice_def map_of_set_action)

lemma remoteModifiedStep_at:
  assumes "\<not> deleted r" and "map_of m (path r) = None"
  shows "map_of (remoteModifiedStep hostFiles w r m) (path r) =
     remoteModifiedChoice w (getFile hostFiles (path r)) (Some r)"
  using assms
  by (cases "getFile hostFiles (path r)")
     (simp_all add: remoteModifiedStep_def remoteModifiedChoice_def map_of_set_action)

lemma syncActionMap_pointwise:
  assumes dh: "distinct (map path hostFiles)" and dr: "distinct (map path remoteFiles)"
  shows "map_of (syncActionMap hostFiles remoteFiles w) p =
           pathAction (getFile hostFiles p) (getFile remoteFiles p) w"
proof -
  let ?h = "getFile hostFiles p" and ?r = "getFile remoteFiles p"
  let ?live = "\<lambda>file. \<not> deleted file"
  let ?m1 = "fold (remoteDeletedStep hostFiles) (filter deleted remoteFiles) []"
  let ?m2 = "fold (hostDeletedStep remoteFiles) (filter deleted hostFiles) ?m1"
  let ?m3 = "fold (hostModifiedStep remoteFiles w) (filter ?live hostFiles) ?m2"
  have 1: "map_of ?m1 p = remoteDeletedChoice ?h ?r"
  proof -
    have "map_of ?m1 p = orElse (map_of [] p)
        (case getFile (filter deleted remoteFiles) p of
           None \<Rightarrow> None | Some f \<Rightarrow> remoteDeletedChoice ?h (Some f))"
      by (rule keyed_fold_pointwise[OF keyed_remoteDeletedStep distinct_map_filter[OF dr]])
         (use remoteDeletedStep_at in auto)
    then show ?thesis
      by (simp add: getFile_filter[OF dr] orElse_def remoteDeletedChoice_def split: option.splits)
  qed
  have 2: "map_of ?m2 p = orElse (map_of ?m1 p) (hostDeletedChoice ?h ?r)"
  proof -
    have "map_of ?m2 p = orElse (map_of ?m1 p)
        (case getFile (filter deleted hostFiles) p of
           None \<Rightarrow> None | Some f \<Rightarrow> hostDeletedChoice (Some f) ?r)"
      by (rule keyed_fold_pointwise[OF keyed_hostDeletedStep distinct_map_filter[OF dh]])
         (use hostDeletedStep_at in auto)
    then show ?thesis
      by (simp add: getFile_filter[OF dh] hostDeletedChoice_def split: option.splits)
  qed
  have 3: "map_of ?m3 p = orElse (map_of ?m2 p) (hostModifiedChoice w ?h ?r)"
  proof -
    have "map_of ?m3 p = orElse (map_of ?m2 p)
        (case getFile (filter ?live hostFiles) p of
           None \<Rightarrow> None | Some f \<Rightarrow> hostModifiedChoice w (Some f) ?r)"
      by (rule keyed_fold_pointwise[OF keyed_hostModifiedStep distinct_map_filter[OF dh]])
         (use hostModifiedStep_at in auto)
    then show ?thesis
      by (simp add: getFile_filter[OF dh] hostModifiedChoice_def split: option.splits)
  qed
  have 4: "map_of (syncActionMap hostFiles remoteFiles w) p =
      orElse (map_of ?m3 p) (remoteModifiedChoice w ?h ?r)"
  proof -
    have "map_of (syncActionMap hostFiles remoteFiles w) p = orElse (map_of ?m3 p)
        (case getFile (filter ?live remoteFiles) p of
           None \<Rightarrow> None | Some f \<Rightarrow> remoteModifiedChoice w ?h (Some f))"
      unfolding syncActionMap_def
      by (rule keyed_fold_pointwise[OF keyed_remoteModifiedStep distinct_map_filter[OF dr]])
         (use remoteModifiedStep_at in auto)
    then show ?thesis
      by (simp add: getFile_filter[OF dr] remoteModifiedChoice_def split: option.splits)
  qed
  show ?thesis
    unfolding pathAction_def 4 3 2 1
    by (simp add: orElse_def split: option.splits)
qed

lemma map_of_all_None: "(\<forall>p. map_of m p = None) \<longleftrightarrow> m = []"
  by (cases m) (auto simp: fun_eq_iff)

lemma createSyncAction_empty_iff:
  assumes "distinct (map path hostFiles)" and "distinct (map path remoteFiles)"
  shows "createSyncAction hostFiles remoteFiles w = [] \<longleftrightarrow>
           (\<forall>p. pathAction (getFile hostFiles p) (getFile remoteFiles p) w = None)"
  unfolding createSyncAction_def
  using syncActionMap_pointwise[OF assms, of w] map_of_all_None[of "syncActionMap hostFiles remoteFiles w"]
  by simp

section \<open>A pass leaves the stores in agreement\<close>

lemma io_bind_Inr:
  "io_bind m f w = (Inr x, w') \<longleftrightarrow> (\<exists>a w1. m w = (Inr a, w1) \<and> f a w1 = (Inr x, w'))"
  by (cases "m w") (auto simp: io_bind_def split: sum.splits)

lemma io_lift_Inr: "io_lift r w = (Inr x, w') \<longleftrightarrow> r = Inr x \<and> w' = w"
  by (auto simp: io_lift_def)

lemma io_return_Inr: "io_return a w = (Inr x, w') \<longleftrightarrow> a = x \<and> w' = w"
  by (auto simp: io_return_def)

lemma contract_read_host:
  assumes "storeContract host remote hl rl" and "fs_getFileContent host p w = (x, w1)"
  shows "hl w1 = hl w" and "rl w1 = rl w"
  using assms unfolding storeContract_def by (metis snd_conv)+

lemma contract_read_remote:
  assumes "storeContract host remote hl rl" and "fs_getFileContent remote p w = (x, w1)"
  shows "hl w1 = hl w" and "rl w1 = rl w"
  using assms unfolding storeContract_def by (metis snd_conv)+

lemma contract_update_host:
  assumes "storeContract host remote hl rl" and "fs_update host p buffer prev t w = (Inr (), w')"
  shows "writtenAt p t (hl w) (hl w')" and "rl w' = rl w"
  using assms unfolding storeContract_def by blast+

lemma contract_update_remote:
  assumes "storeContract host remote hl rl" and "fs_update remote p buffer prev t w = (Inr (), w')"
  shows "writtenAt p t (rl w) (rl w')" and "hl w' = hl w"
  using assms unfolding storeContract_def by blast+

lemma contract_prune_host:
  assumes "storeContract host remote hl rl" and "fs_prune host p w = (Inr (), w')"
  shows "prunedAt p (hl w) (hl w')" and "rl w' = rl w"
  using assms unfolding storeContract_def by blast+

lemma pathAction_equal_live:
  assumes "\<not> deleted h" and "\<not> deleted r" and "updatedAt h = updatedAt r" and "updatedAt h \<le> now"
  shows "pathAction (Some h) (Some r) now = None"
  using assms
  by (simp add: pathAction_def orElse_def remoteDeletedChoice_def hostDeletedChoice_def
        hostModifiedChoice_def remoteModifiedChoice_def)

lemma pathAction_no_host:
  assumes "r = None \<or> (\<exists>f. r = Some f \<and> deleted f)"
  shows "pathAction None r now = None"
  using assms
  by (auto simp: pathAction_def orElse_def remoteDeletedChoice_def hostDeletedChoice_def
        hostModifiedChoice_def remoteModifiedChoice_def)

lemma touchesOnly_refl_lists:
  assumes "hl w' = hl w" and "rl w' = rl w"
  shows "touchesOnly p hl rl w w'"
  using assms by (simp add: touchesOnly_def)

lemma touchesOnly_trans:
  assumes "touchesOnly p hl rl w w1" and "touchesOnly p hl rl w1 w'"
  shows "touchesOnly p hl rl w w'"
  using assms unfolding touchesOnly_def by metis

lemma touchesOnly_written_remote:
  assumes "writtenAt p t (rl w) (rl w')" and "hl w' = hl w"
  shows "touchesOnly p hl rl w w'"
  using assms by (simp add: touchesOnly_def writtenAt_def)

lemma touchesOnly_written_host:
  assumes "writtenAt p t (hl w) (hl w')" and "rl w' = rl w"
  shows "touchesOnly p hl rl w w'"
  using assms by (simp add: touchesOnly_def writtenAt_def)

lemma push_effect:
  assumes c: "storeContract host remote hl rl"
    and a: "action a = Push" and hf: "hostFile a = Some h"
    and gh: "getFile (hl w) p = Some h" and live: "\<not> deleted h" and past: "updatedAt h \<le> now"
    and run: "applySyncAction host remote crypto cr a t w = (Inr (), w')"
  shows "pathAction (getFile (hl w') p) (getFile (rl w') p) now = None"
    and "touchesOnly p hl rl w w'"
proof -
  have ph: "path h = p" using gh by (simp add: getFile_path)
  from run obtain buffer w1 tok where
    rd: "fs_getFileContent host p w = (Inr buffer, w1)" and
    wr: "fs_update remote p buffer tok (updatedAt h) w1 = (Inr (), w')"
    unfolding applySyncAction_Push[OF a] hf option.case io_bind_Inr ph by blast
  have l1: "hl w1 = hl w" "rl w1 = rl w" using contract_read_host[OF c rd] by simp_all
  have wa: "writtenAt p (updatedAt h) (rl w1) (rl w')" and hl': "hl w' = hl w1"
    using contract_update_remote[OF c wr] by simp_all
  from wa obtain f where f: "getFile (rl w') p = Some f" "\<not> deleted f" "updatedAt f = updatedAt h"
    unfolding writtenAt_def by blast
  show "pathAction (getFile (hl w') p) (getFile (rl w') p) now = None"
    using f gh live past by (simp add: hl' l1 pathAction_equal_live)
  show "touchesOnly p hl rl w w'"
    using touchesOnly_written_remote[OF wa hl'] by (simp add: touchesOnly_def l1)
qed

lemma pull_effect:
  assumes c: "storeContract host remote hl rl"
    and a: "action a = Pull" and rf: "remoteFile a = Some r"
    and gr: "getFile (rl w) p = Some r" and live: "\<not> deleted r" and past: "updatedAt r \<le> now"
    and run: "applySyncAction host remote crypto cr a t w = (Inr (), w')"
  shows "pathAction (getFile (hl w') p) (getFile (rl w') p) now = None"
    and "touchesOnly p hl rl w w'"
proof -
  have pr: "path r = p" using gr by (simp add: getFile_path)
  from run obtain buffer w1 tok where
    rd: "fs_getFileContent remote p w = (Inr buffer, w1)" and
    wr: "fs_update host p buffer tok (updatedAt r) w1 = (Inr (), w')"
    unfolding applySyncAction_Pull[OF a] rf option.case io_bind_Inr pr by blast
  have l1: "hl w1 = hl w" "rl w1 = rl w" using contract_read_remote[OF c rd] by simp_all
  have wa: "writtenAt p (updatedAt r) (hl w1) (hl w')" and rl': "rl w' = rl w1"
    using contract_update_host[OF c wr] by simp_all
  from wa obtain f where f: "getFile (hl w') p = Some f" "\<not> deleted f" "updatedAt f = updatedAt r"
    unfolding writtenAt_def by blast
  show "pathAction (getFile (hl w') p) (getFile (rl w') p) now = None"
    using f gr live past by (simp add: rl' l1 pathAction_equal_live)
  show "touchesOnly p hl rl w w'"
    using touchesOnly_written_host[OF wa rl'] by (simp add: touchesOnly_def l1)
qed

lemma prune_effect:
  assumes c: "storeContract host remote hl rl"
    and a: "action a = Prune" and hf: "hostFile a = Some h"
    and gh: "getFile (hl w) p = Some h" and dead: "deleted h"
    and gr: "getFile (rl w) p = None \<or> (\<exists>f. getFile (rl w) p = Some f \<and> deleted f)"
    and dh: "distinct (map path (hl w))"
    and run: "applySyncAction host remote crypto cr a t w = (Inr (), w')"
  shows "pathAction (getFile (hl w') p) (getFile (rl w') p) now = None"
    and "touchesOnly p hl rl w w'"
proof -
  have ph: "path h = p" using gh by (simp add: getFile_path)
  have pr: "fs_prune host p w = (Inr (), w')"
    using run unfolding applySyncAction_Prune[OF a] hf option.case ph .
  have pa: "prunedAt p (hl w) (hl w')" and rl': "rl w' = rl w"
    using contract_prune_host[OF c pr] by simp_all
  have "\<forall>f \<in> set (hl w). path f = p \<longrightarrow> deleted f"
    using distinct_path_eq[OF dh] getFile_path[OF gh] dead by blast
  then have "getFile (hl w') p = None" using pa unfolding prunedAt_def by simp
  then show "pathAction (getFile (hl w') p) (getFile (rl w') p) now = None"
    using gr by (simp add: rl' pathAction_no_host)
  show "touchesOnly p hl rl w w'"
    using pa rl' by (simp add: touchesOnly_def prunedAt_def)
qed


lemma handleConflict_Inr:
  assumes c: "storeContract host remote hl rl"
    and run: "handleConflict host remote crypto cr h r w = (Inr (s, d), w1)"
  shows "hl w1 = hl w" and "rl w1 = rl w"
    and "s = getResolutionStrategy (resolver_minimatch cr) (resolver_settings cr) h r"
    and "s = Resolve \<longrightarrow> d \<noteq> None"
proof -
  let ?s = "getResolutionStrategy (resolver_minimatch cr) (resolver_settings cr) h r"
  from run have "\<exists>x wa y. fs_getFileContent host (path h) w = (Inr x, wa) \<and>
      fs_getFileContent remote (path r) wa = (Inr y, w1) \<and> s = ?s \<and> (s = Resolve \<longrightarrow> d \<noteq> None)"
    unfolding handleConflict_def Let_def
    by (auto simp: io_bind_Inr io_lift_Inr io_return_Inr split: if_splits)
  then obtain x wa y where
    rd1: "fs_getFileContent host (path h) w = (Inr x, wa)" and
    rd2: "fs_getFileContent remote (path r) wa = (Inr y, w1)" and
    s: "s = ?s" "s = Resolve \<longrightarrow> d \<noteq> None"
    by blast
  have "hl wa = hl w" "rl wa = rl w" using contract_read_host[OF c rd1] by simp_all
  moreover have "hl w1 = hl wa" "rl w1 = rl wa" using contract_read_remote[OF c rd2] by simp_all
  ultimately show "hl w1 = hl w" and "rl w1 = rl w" by simp_all
  show "s = ?s" and "s = Resolve \<longrightarrow> d \<noteq> None" using s by simp_all
qed

lemma resolve_effect:
  assumes c: "storeContract host remote hl rl"
    and gh: "getFile (hl w) p = Some h" and gr: "getFile (rl w) p = Some r"
    and run: "io_bind (fs_update remote (path r) buffer (updatedAt r) now)
                (\<lambda>_. fs_update host (path h) buffer (updatedAt h) now) w = (Inr (), w')"
  shows "pathAction (getFile (hl w') p) (getFile (rl w') p) now = None"
    and "touchesOnly p hl rl w w'"
proof -
  have ph: "path h = p" and pr: "path r = p" using gh gr by (simp_all add: getFile_path)
  from run obtain w1 where
    u1: "fs_update remote p buffer (updatedAt r) now w = (Inr (), w1)" and
    u2: "fs_update host p buffer (updatedAt h) now w1 = (Inr (), w')"
    unfolding io_bind_Inr ph pr by auto
  have wr: "writtenAt p now (rl w) (rl w1)" and h1: "hl w1 = hl w"
    using contract_update_remote[OF c u1] by simp_all
  have wh: "writtenAt p now (hl w1) (hl w')" and r1: "rl w' = rl w1"
    using contract_update_host[OF c u2] by simp_all
  from wr obtain fr where fr: "getFile (rl w1) p = Some fr" "\<not> deleted fr" "updatedAt fr = now"
    unfolding writtenAt_def by blast
  from wh obtain fh where fh: "getFile (hl w') p = Some fh" "\<not> deleted fh" "updatedAt fh = now"
    unfolding writtenAt_def by blast
  show "pathAction (getFile (hl w') p) (getFile (rl w') p) now = None"
    using fr fh by (simp add: r1 pathAction_equal_live)
  show "touchesOnly p hl rl w w'"
    by (rule touchesOnly_trans[OF touchesOnly_written_remote[OF wr h1]
          touchesOnly_written_host[OF wh r1]])
qed

lemma conflict_effect:
  assumes c: "storeContract host remote hl rl"
    and a: "action a = Conflict" and hf: "hostFile a = Some h" and rf: "remoteFile a = Some r"
    and gh: "getFile (hl w) p = Some h" and gr: "getFile (rl w) p = Some r"
    and live: "\<not> deleted h" "\<not> deleted r"
    and past: "updatedAt h \<le> now" "updatedAt r \<le> now"
    and ni: "getResolutionStrategy (resolver_minimatch cr) (resolver_settings cr) h r \<noteq> Ignore"
    and run: "applySyncAction host remote crypto cr a now w = (Inr (), w')"
  shows "pathAction (getFile (hl w') p) (getFile (rl w') p) now = None"
    and "touchesOnly p hl rl w w'"
proof -
  from run obtain s d w1 where
    hc: "handleConflict host remote crypto cr h r w = (Inr (s, d), w1)" and
    rest: "(case s of
           Resolve \<Rightarrow>
             (case d of
                Some buffer \<Rightarrow>
                  io_bind (fs_update remote (path r) buffer (updatedAt r) now)
                    (\<lambda>_. fs_update host (path h) buffer (updatedAt h) now)
              | None \<Rightarrow> io_return ())
         | Ignore \<Rightarrow> io_return ()
         | Latest \<Rightarrow>
             applySyncAction host remote crypto cr
               (a\<lparr>action := (if updatedAt h < updatedAt r then Pull else Push)\<rparr>) now
         | Oldest \<Rightarrow>
             applySyncAction host remote crypto cr
               (a\<lparr>action := (if updatedAt h < updatedAt r then Push else Pull)\<rparr>) now
         | AlwaysPull \<Rightarrow> applySyncAction host remote crypto cr (a\<lparr>action := Pull\<rparr>) now
         | AlwaysPush \<Rightarrow> applySyncAction host remote crypto cr (a\<lparr>action := Push\<rparr>) now) w1
        = (Inr (), w')"
    unfolding applySyncAction.simps[of _ _ _ _ a] a hf rf SyncActionKind.case option.case io_bind_Inr
    by auto
  note facts = handleConflict_Inr[OF c hc]
  have gh1: "getFile (hl w1) p = Some h" and gr1: "getFile (rl w1) p = Some r"
    using gh gr facts(1,2) by simp_all
  have same: "touchesOnly p hl rl w w1"
    by (rule touchesOnly_refl_lists[OF facts(1,2)])
  have push: "pathAction (getFile (hl w') p) (getFile (rl w') p) now = None \<and> touchesOnly p hl rl w1 w'"
    if "applySyncAction host remote crypto cr (a\<lparr>action := Push\<rparr>) now w1 = (Inr (), w')"
    using push_effect[OF c _ _ gh1 live(1) past(1) that] hf by simp
  have pull: "pathAction (getFile (hl w') p) (getFile (rl w') p) now = None \<and> touchesOnly p hl rl w1 w'"
    if "applySyncAction host remote crypto cr (a\<lparr>action := Pull\<rparr>) now w1 = (Inr (), w')"
    using pull_effect[OF c _ _ gr1 live(2) past(2) that] rf by simp
  have "pathAction (getFile (hl w') p) (getFile (rl w') p) now = None \<and> touchesOnly p hl rl w1 w'"
  proof (cases s)
    case Resolve
    then obtain buffer where d: "d = Some buffer" using facts(4) by auto
    show ?thesis
      using resolve_effect[OF c gh1 gr1, of buffer now w'] rest unfolding Resolve d by simp
  next
    case Ignore
    then show ?thesis using facts(3) ni by simp
  next
    case Latest
    then show ?thesis using rest push pull by (cases "updatedAt h < updatedAt r") simp_all
  next
    case Oldest
    then show ?thesis using rest push pull by (cases "updatedAt h < updatedAt r") simp_all
  next
    case AlwaysPull
    then show ?thesis using rest pull by simp
  next
    case AlwaysPush
    then show ?thesis using rest push by simp
  qed
  then show "pathAction (getFile (hl w') p) (getFile (rl w') p) now = None"
    and "touchesOnly p hl rl w w'"
    using touchesOnly_trans[OF same] by simp_all
qed


lemma pathAction_cases:
  assumes "pathAction H R lsa = Some a"
  obtains
    (prune) h where "H = Some h" and "deleted h"
      and "R = None \<or> (\<exists>r. R = Some r \<and> deleted r)"
      and "action a = Prune" and "hostFile a = Some h"
  | (remove) "action a = Remove"
  | (push) h where "H = Some h" and "\<not> deleted h" and "action a = Push" and "hostFile a = Some h"
  | (pull) r where "R = Some r" and "\<not> deleted r" and "action a = Pull" and "remoteFile a = Some r"
  | (conflict) h r where "H = Some h" and "R = Some r" and "\<not> deleted h" and "\<not> deleted r"
      and "action a = Conflict" and "hostFile a = Some h" and "remoteFile a = Some r"
proof (cases H)
  case hN: None
  show ?thesis
  proof (cases R)
    case None
    then show ?thesis
      using assms hN
      by (simp add: pathAction_def orElse_def remoteDeletedChoice_def hostDeletedChoice_def
            hostModifiedChoice_def remoteModifiedChoice_def)
  next
    case (Some r)
    then have "\<not> deleted r" and "a = createAction None (Some r) Pull"
      using assms hN
      by (auto simp: pathAction_def orElse_def remoteDeletedChoice_def hostDeletedChoice_def
            hostModifiedChoice_def remoteModifiedChoice_def split: if_splits)
    then show ?thesis using pull[of r] Some by (simp add: createAction_def)
  qed
next
  case hS: (Some h)
  show ?thesis
  proof (cases R)
    case None
    show ?thesis
    proof (cases "deleted h")
      case True
      then have "a = createAction (Some h) None Prune"
        using assms hS None
        by (simp add: pathAction_def orElse_def remoteDeletedChoice_def hostDeletedChoice_def)
      then show ?thesis using prune[of h] hS None True by (simp add: createAction_def)
    next
      case False
      then have "a = createAction (Some h) None Push"
        using assms hS None
        by (simp add: pathAction_def orElse_def remoteDeletedChoice_def hostDeletedChoice_def
              hostModifiedChoice_def)
      then show ?thesis using push[of h] hS False by (simp add: createAction_def)
    qed
  next
    case (Some r)
    show ?thesis
    proof (cases "deleted r")
      case rd: True
      then have a: "a = createAction (Some h) (Some r)
          (if deleted h then Prune else if createdAt h < deletedAt r then Remove else Push)"
        using assms hS Some by (simp add: pathAction_def orElse_def remoteDeletedChoice_def)
      show ?thesis
      proof (cases "deleted h")
        case True
        then show ?thesis using prune[of h] a hS Some rd by (simp add: createAction_def)
      next
        case False
        then show ?thesis
          using push[of h] remove a hS
          by (cases "createdAt h < deletedAt r") (simp_all add: createAction_def)
      qed
    next
      case rl: False
      show ?thesis
      proof (cases "deleted h")
        case True
        then have "a = createAction (Some h) (Some r)
            (if createdAt r < deletedAt h then Remove else Pull)"
          using assms hS Some rl
          by (simp add: pathAction_def orElse_def remoteDeletedChoice_def hostDeletedChoice_def)
        then show ?thesis
          using pull[of r] remove Some rl
          by (cases "createdAt r < deletedAt h") (simp_all add: createAction_def)
      next
        case False
        then have "a = createAction (Some h) (Some r) Push \<or>
            a = createAction (Some h) (Some r) Conflict \<or>
            a = createAction (Some h) (Some r) Pull"
          using assms hS Some rl
          by (auto simp: pathAction_def orElse_def remoteDeletedChoice_def hostDeletedChoice_def
                hostModifiedChoice_def remoteModifiedChoice_def split: if_splits)
        then show ?thesis
          using push[of h] pull[of r] conflict[of h r] hS Some rl False
          by (auto simp: createAction_def)
      qed
    qed
  qed
qed

lemma planned_effect:
  assumes c: "storeContract host remote hl rl"
    and pa: "pathAction (getFile (hl w) p) (getFile (rl w) p) lsa = Some a"
    and nr: "action a \<noteq> Remove"
    and ni: "\<And>h r. action a = Conflict \<Longrightarrow> hostFile a = Some h \<Longrightarrow> remoteFile a = Some r \<Longrightarrow>
              getResolutionStrategy (resolver_minimatch cr) (resolver_settings cr) h r \<noteq> Ignore"
    and past: "\<And>f. getFile (hl w) p = Some f \<or> getFile (rl w) p = Some f \<Longrightarrow>
              \<not> deleted f \<Longrightarrow> updatedAt f \<le> now"
    and dh: "distinct (map path (hl w))"
    and run: "applySyncAction host remote crypto cr a now w = (Inr (), w')"
  shows "pathAction (getFile (hl w') p) (getFile (rl w') p) now = None"
    and "touchesOnly p hl rl w w'"
proof -
  have "pathAction (getFile (hl w') p) (getFile (rl w') p) now = None \<and> touchesOnly p hl rl w w'"
    using pa
  proof (cases rule: pathAction_cases)
    case (prune h)
    then show ?thesis using prune_effect[OF c prune(4,5,1,2,3) dh run] by simp
  next
    case remove
    then show ?thesis using nr by simp
  next
    case (push h)
    have "updatedAt h \<le> now" using past[of h] push by simp
    then show ?thesis using push_effect[OF c push(3,4,1,2) _ run] by simp
  next
    case (pull r)
    have "updatedAt r \<le> now" using past[of r] pull by simp
    then show ?thesis using pull_effect[OF c pull(3,4,1,2) _ run] by simp
  next
    case (conflict h r)
    have "updatedAt h \<le> now" "updatedAt r \<le> now"
      using past[of h] past[of r] conflict by simp_all
    moreover have "getResolutionStrategy (resolver_minimatch cr) (resolver_settings cr) h r \<noteq> Ignore"
      using ni conflict by simp
    ultimately show ?thesis
      using conflict_effect[OF c conflict(5,6,7,1,2,3,4) _ _ _ run] by simp
  qed
  then show "pathAction (getFile (hl w') p) (getFile (rl w') p) now = None"
    and "touchesOnly p hl rl w w'" by simp_all
qed


lemma pathAction_None_later:
  assumes "pathAction H R lsa = None"
    and "\<And>f. H = Some f \<or> R = Some f \<Longrightarrow> \<not> deleted f \<Longrightarrow> updatedAt f \<le> now"
  shows "pathAction H R now = None"
proof (cases H)
  case None
  then show ?thesis
    using assms(1)
    by (cases R)
       (auto simp: pathAction_def orElse_def remoteDeletedChoice_def hostDeletedChoice_def
          hostModifiedChoice_def remoteModifiedChoice_def split: if_splits)
next
  case (Some h)
  show ?thesis
  proof (cases R)
    case None
    then show ?thesis
      using assms(1) Some
      by (auto simp: pathAction_def orElse_def remoteDeletedChoice_def hostDeletedChoice_def
          hostModifiedChoice_def remoteModifiedChoice_def split: if_splits)
  next
    case r: (Some r)
    have "\<not> deleted h \<Longrightarrow> updatedAt h \<le> now" and "\<not> deleted r \<Longrightarrow> updatedAt r \<le> now"
      using assms(2)[of h] assms(2)[of r] Some r by simp_all
    then show ?thesis
      using assms(1) Some r
      by (cases "deleted h"; cases "deleted r")
         (auto simp: pathAction_def orElse_def remoteDeletedChoice_def hostDeletedChoice_def
            hostModifiedChoice_def remoteModifiedChoice_def split: if_splits)
  qed
qed

lemma apply_planned:
  assumes c: "storeContract host remote hl rl"
  shows "distinct (map fst m) \<Longrightarrow>
    distinct (map path (hl w)) \<Longrightarrow> distinct (map path (rl w)) \<Longrightarrow>
    (\<And>k a. (k, a) \<in> set m \<Longrightarrow>
        pathAction (getFile (hl w) k) (getFile (rl w) k) lsa = Some a \<and> action a \<noteq> Remove \<and>
        (\<forall>h r. action a = Conflict \<longrightarrow> hostFile a = Some h \<longrightarrow> remoteFile a = Some r \<longrightarrow>
           getResolutionStrategy (resolver_minimatch cr) (resolver_settings cr) h r \<noteq> Ignore) \<and>
        (\<forall>f. getFile (hl w) k = Some f \<or> getFile (rl w) k = Some f \<longrightarrow>
           \<not> deleted f \<longrightarrow> updatedAt f \<le> now)) \<Longrightarrow>
    applyActions host remote crypto cr (map snd m) now w = (Inr (), w') \<Longrightarrow>
    (\<forall>k \<in> fst ` set m. pathAction (getFile (hl w') k) (getFile (rl w') k) now = None) \<and>
    (\<forall>q. q \<notin> fst ` set m \<longrightarrow>
        getFile (hl w') q = getFile (hl w) q \<and> getFile (rl w') q = getFile (rl w) q) \<and>
    (distinct (map path (hl w)) \<longrightarrow> distinct (map path (hl w'))) \<and>
    (distinct (map path (rl w)) \<longrightarrow> distinct (map path (rl w')))"
proof (induction m arbitrary: w)
  case Nil
  then show ?case by (simp add: io_return_def)
next
  case (Cons x m)
  obtain k a where x: "x = (k, a)" by (cases x)
  from Cons.prems(5) obtain w1 where
    first: "applySyncAction host remote crypto cr a now w = (Inr (), w1)" and
    others: "applyActions host remote crypto cr (map snd m) now w1 = (Inr (), w')"
    unfolding x by (auto simp: io_bind_Inr)
  have px: "pathAction (getFile (hl w) k) (getFile (rl w) k) lsa = Some a \<and> action a \<noteq> Remove \<and>
        (\<forall>h r. action a = Conflict \<longrightarrow> hostFile a = Some h \<longrightarrow> remoteFile a = Some r \<longrightarrow>
           getResolutionStrategy (resolver_minimatch cr) (resolver_settings cr) h r \<noteq> Ignore) \<and>
        (\<forall>f. getFile (hl w) k = Some f \<or> getFile (rl w) k = Some f \<longrightarrow>
           \<not> deleted f \<longrightarrow> updatedAt f \<le> now)"
    using Cons.prems(4)[of k a] x by simp
  have eff: "pathAction (getFile (hl w1) k) (getFile (rl w1) k) now = None"
    and t1: "touchesOnly k hl rl w w1"
    using planned_effect[OF c _ _ _ _ Cons.prems(2) first, of k lsa] px by blast+
  have nk: "k \<notin> fst ` set m" and dm: "distinct (map fst m)"
    using Cons.prems(1) x by auto
  have same1: "getFile (hl w1) q = getFile (hl w) q \<and> getFile (rl w1) q = getFile (rl w) q"
    if "q \<noteq> k" for q
    using t1 that unfolding touchesOnly_def by blast
  have IH: "(\<forall>k \<in> fst ` set m. pathAction (getFile (hl w') k) (getFile (rl w') k) now = None) \<and>
    (\<forall>q. q \<notin> fst ` set m \<longrightarrow>
        getFile (hl w') q = getFile (hl w1) q \<and> getFile (rl w') q = getFile (rl w1) q) \<and>
    (distinct (map path (hl w1)) \<longrightarrow> distinct (map path (hl w'))) \<and>
    (distinct (map path (rl w1)) \<longrightarrow> distinct (map path (rl w')))"
  proof (rule Cons.IH[OF dm _ _ _ others])
    show "distinct (map path (hl w1))" and "distinct (map path (rl w1))"
      using t1 Cons.prems(2,3) unfolding touchesOnly_def by blast+
  next
    fix k' a'
    assume in_m: "(k', a') \<in> set m"
    then have "k' \<noteq> k" using nk by force
    then have "getFile (hl w1) k' = getFile (hl w) k'" "getFile (rl w1) k' = getFile (rl w) k'"
      using same1 by simp_all
    then show "pathAction (getFile (hl w1) k') (getFile (rl w1) k') lsa = Some a' \<and>
        action a' \<noteq> Remove \<and>
        (\<forall>h r. action a' = Conflict \<longrightarrow> hostFile a' = Some h \<longrightarrow> remoteFile a' = Some r \<longrightarrow>
           getResolutionStrategy (resolver_minimatch cr) (resolver_settings cr) h r \<noteq> Ignore) \<and>
        (\<forall>f. getFile (hl w1) k' = Some f \<or> getFile (rl w1) k' = Some f \<longrightarrow>
           \<not> deleted f \<longrightarrow> updatedAt f \<le> now)"
      using Cons.prems(4)[of k' a'] in_m by simp
  qed
  have at_k: "pathAction (getFile (hl w') k) (getFile (rl w') k) now = None"
    using IH nk eff by simp
  have elsewhere: "getFile (hl w') q = getFile (hl w) q \<and> getFile (rl w') q = getFile (rl w) q"
    if "q \<notin> fst ` set (x # m)" for q
  proof -
    from that have "q \<noteq> k" and "q \<notin> fst ` set m" by (simp_all add: x)
    then show ?thesis using IH same1 by simp
  qed
  have dist: "(distinct (map path (hl w)) \<longrightarrow> distinct (map path (hl w'))) \<and>
    (distinct (map path (rl w)) \<longrightarrow> distinct (map path (rl w')))"
    using IH t1 unfolding touchesOnly_def by blast
  show ?case
    using at_k IH elsewhere dist by (simp add: x)
qed


text \<open>
  Claim C4, as amended.  Take two stores that keep the file store contract, whose
  listings hold at most one record per path and no live record stamped later than the
  pass's \<open>now\<close>.  If every action of the plan is applied without an error, no action of
  the plan is a remove, and the resolver classifies no conflict of the plan as
  \<open>Ignore\<close>, then the plan made from the listings after the pass, with the watermark at
  \<open>now\<close>, is empty.
\<close>

theorem pass_then_plan_empty:
  assumes "storeContract host remote hostList remoteList"
    and "distinct (map path (hostList w))"
    and "distinct (map path (remoteList w))"
    and "\<forall>f \<in> set (hostList w) \<union> set (remoteList w). \<not> deleted f \<longrightarrow> updatedAt f \<le> now"
    and "\<forall>a \<in> set (createSyncAction (hostList w) (remoteList w) lsa).
           action a \<noteq> Remove \<and>
           (action a = Conflict \<longrightarrow>
              (\<forall>h r. hostFile a = Some h \<longrightarrow> remoteFile a = Some r \<longrightarrow>
                 getResolutionStrategy (resolver_minimatch cr) (resolver_settings cr) h r \<noteq> Ignore))"
    and "applyActions host remote crypto cr
           (createSyncAction (hostList w) (remoteList w) lsa) now w = (Inr (), w')"
  shows "createSyncAction (hostList w') (remoteList w') now = []"
proof -
  let ?m = "syncActionMap (hostList w) (remoteList w) lsa"
  have pw: "map_of ?m p = pathAction (getFile (hostList w) p) (getFile (remoteList w) p) lsa" for p
    by (rule syncActionMap_pointwise[OF assms(2,3)])
  have dk: "distinct (map fst ?m)"
    using wf_syncActionMap[of "hostList w" "remoteList w" lsa] by (simp add: wfActionMap_def)
  have past: "\<not> deleted f \<longrightarrow> updatedAt f \<le> now"
    if "getFile (hostList w) p = Some f \<or> getFile (remoteList w) p = Some f" for f p
    using that assms(4) by (auto dest: getFile_path)
  have entry: "pathAction (getFile (hostList w) k) (getFile (remoteList w) k) lsa = Some a \<and>
        action a \<noteq> Remove \<and>
        (\<forall>h r. action a = Conflict \<longrightarrow> hostFile a = Some h \<longrightarrow> remoteFile a = Some r \<longrightarrow>
           getResolutionStrategy (resolver_minimatch cr) (resolver_settings cr) h r \<noteq> Ignore) \<and>
        (\<forall>f. getFile (hostList w) k = Some f \<or> getFile (remoteList w) k = Some f \<longrightarrow>
           \<not> deleted f \<longrightarrow> updatedAt f \<le> now)"
    if "(k, a) \<in> set ?m" for k a
  proof -
    have "map_of ?m k = Some a" using that dk by simp
    moreover have "a \<in> set (createSyncAction (hostList w) (remoteList w) lsa)"
      using that by (force simp: createSyncAction_def)
    ultimately show ?thesis using pw[of k] assms(5) past by auto
  qed
  have run: "applyActions host remote crypto cr (map snd ?m) now w = (Inr (), w')"
    using assms(6) by (simp add: createSyncAction_def)
  have after: "(\<forall>k \<in> fst ` set ?m.
        pathAction (getFile (hostList w') k) (getFile (remoteList w') k) now = None) \<and>
    (\<forall>q. q \<notin> fst ` set ?m \<longrightarrow>
        getFile (hostList w') q = getFile (hostList w) q \<and>
        getFile (remoteList w') q = getFile (remoteList w) q) \<and>
    (distinct (map path (hostList w)) \<longrightarrow> distinct (map path (hostList w'))) \<and>
    (distinct (map path (remoteList w)) \<longrightarrow> distinct (map path (remoteList w')))"
    by (rule apply_planned[OF assms(1) dk assms(2,3) _ run]) (rule entry)
  have settled: "pathAction (getFile (hostList w') p) (getFile (remoteList w') p) now = None" for p
  proof (cases "p \<in> fst ` set ?m")
    case True
    show ?thesis by (rule after[THEN conjunct1, THEN bspec, OF True])
  next
    case False
    then have "map_of ?m p = None" by (simp add: map_of_eq_None_iff)
    then have "pathAction (getFile (hostList w) p) (getFile (remoteList w) p) lsa = None"
      using pw[of p] by simp
    then have "pathAction (getFile (hostList w) p) (getFile (remoteList w) p) now = None"
      by (rule pathAction_None_later) (use past in blast)
    moreover have "getFile (hostList w') p = getFile (hostList w) p"
      "getFile (remoteList w') p = getFile (remoteList w) p"
      using after[THEN conjunct2, THEN conjunct1, THEN spec, of p] False by simp_all
    ultimately show ?thesis by simp
  qed
  have "distinct (map path (hostList w'))" and "distinct (map path (remoteList w'))"
    using after[THEN conjunct2, THEN conjunct2] assms(2,3) by simp_all
  then show ?thesis using settled by (simp add: createSyncAction_empty_iff)
qed

section \<open>The store kept in memory honours the contract\<close>

lemma find_append_cases:
  "find P (xs @ ys) = (case find P xs of None \<Rightarrow> find P ys | Some x \<Rightarrow> Some x)"
  by (induction xs) auto

lemma find_map_option:
  "find P (map g xs) = map_option g (find (\<lambda>x. P (g x)) xs)"
  by (induction xs) auto

lemma getFile_putFile:
  "getFile (putFile file fs) q = (if q = path file then Some file else getFile fs q)"
proof (cases "getFile fs (path file)")
  case None
  then show ?thesis
    by (auto simp: putFile_def getFile_def find_append_cases split: option.splits)
next
  case (Some x)
  let ?g = "\<lambda>f. if path f = path file then file else f"
  have pg: "path (?g f) = path f" for f by simp
  have "getFile (map ?g fs) q = map_option ?g (getFile fs q)"
    unfolding getFile_def find_map_option pg ..
  moreover have "map_option ?g (getFile fs q) = (if q = path file then Some file else getFile fs q)"
  proof (cases "getFile fs q")
    case None
    then show ?thesis using Some by auto
  next
    case s: (Some y)
    then have "path y = q" by (simp add: getFile_path)
    then show ?thesis using s by auto
  qed
  ultimately show ?thesis using Some by (simp add: putFile_def)
qed

lemma distinct_putFile:
  assumes "distinct (map path fs)"
  shows "distinct (map path (putFile file fs))"
proof (cases "getFile fs (path file)")
  case None
  then have "path file \<notin> path ` set fs" by (auto simp: getFile_None)
  then show ?thesis using assms None by (simp add: putFile_def)
next
  case (Some x)
  have "map path (map (\<lambda>f. if path f = path file then file else f) fs) = map path fs"
    by (induction fs) auto
  then have "distinct (map path (map (\<lambda>f. if path f = path file then file else f) fs))"
    using assms by (simp only:)
  then show ?thesis using Some by (simp only: putFile_def) simp
qed

lemma find_filter_implied:
  "(\<And>x. x \<in> set xs \<Longrightarrow> Q x \<Longrightarrow> P x) \<Longrightarrow> find Q (filter P xs) = find Q xs"
  by (induction xs) auto

lemma getFile_pruned_other:
  "q \<noteq> p \<Longrightarrow> getFile (filter (\<lambda>f. \<not> (path f = p \<and> deleted f)) fs) q = getFile fs q"
  unfolding getFile_def by (rule find_filter_implied) auto

lemma getFile_pruned_same:
  "\<forall>f \<in> set fs. path f = p \<longrightarrow> deleted f \<Longrightarrow>
   getFile (filter (\<lambda>f. \<not> (path f = p \<and> deleted f)) fs) p = None"
  by (auto simp: getFile_None)

lemma writtenAt_putFile:
  "\<not> deleted file \<Longrightarrow> path file = p \<Longrightarrow> updatedAt file = t \<Longrightarrow>
   writtenAt p t fs (putFile file fs)"
  by (auto simp: writtenAt_def getFile_putFile distinct_putFile)

lemma prunedAt_filter:
  "prunedAt p fs (filter (\<lambda>f. \<not> (path f = p \<and> deleted f)) fs)"
  unfolding prunedAt_def
proof (intro conjI impI allI)
  show "distinct (map path (filter (\<lambda>f. \<not> (path f = p \<and> deleted f)) fs))"
    if "distinct (map path fs)"
    using that by (rule distinct_map_filter)
  show "getFile (filter (\<lambda>f. \<not> (path f = p \<and> deleted f)) fs) p = None"
    if "\<forall>f \<in> set fs. path f = p \<longrightarrow> deleted f"
    using that by (rule getFile_pruned_same)
  show "getFile (filter (\<lambda>f. \<not> (path f = p \<and> deleted f)) fs) q = getFile fs q"
    if "q \<noteq> p" for q
    using that by (rule getFile_pruned_other)
qed


lemma memHost_simps:
  "fs_getFiles memHost (h, r) = (Inr (mem_files h), (h, r))"
  "fs_getFileContent memHost p (h, r) = (Inr (mem_contents h p), (h, r))"
  "fs_update memHost p buffer prev t (h, r) =
     (fst (mem_update p buffer prev t h), (snd (mem_update p buffer prev t h), r))"
  "fs_remove memHost p prev now (h, r) =
     (fst (mem_remove p prev now h), (snd (mem_remove p prev now h), r))"
  "fs_prune memHost p (h, r) =
     (Inr (), (h\<lparr>mem_files := filter (\<lambda>f. \<not> (path f = p \<and> deleted f)) (mem_files h)\<rparr>, r))"
  by (simp_all add: memHost_def on_host_def mem_getFiles_def mem_getFileContent_def mem_prune_def
        split: prod.splits)

lemma memRemote_simps:
  "fs_getFiles memRemote (h, r) = (Inr (mem_files r), (h, r))"
  "fs_getFileContent memRemote p (h, r) = (Inr (mem_contents r p), (h, r))"
  "fs_update memRemote p buffer prev t (h, r) =
     (fst (mem_update p buffer prev t r), (h, snd (mem_update p buffer prev t r)))"
  "fs_remove memRemote p prev now (h, r) =
     (fst (mem_remove p prev now r), (h, snd (mem_remove p prev now r)))"
  "fs_prune memRemote p (h, r) =
     (Inr (), (h, r\<lparr>mem_files := filter (\<lambda>f. \<not> (path f = p \<and> deleted f)) (mem_files r)\<rparr>))"
  by (simp_all add: memRemote_def on_remote_def mem_getFiles_def mem_getFileContent_def
        mem_prune_def split: prod.splits)

lemma mem_update_written:
  assumes "fst (mem_update p buffer prev t st) = Inr ()"
  shows "writtenAt p t (mem_files st) (mem_files (snd (mem_update p buffer prev t st)))"
proof -
  define stale where "stale \<longleftrightarrow> mem_mtime st p \<noteq> 0 \<and> mem_mtime st p \<noteq> prev"
  let ?file = "\<lparr>path = p, size_bytes = int (length buffer),
               createdAt = (case getFile (mem_files st) p of
                              Some f \<Rightarrow> if deleted f then t else createdAt f
                            | None \<Rightarrow> t),
               updatedAt = t, deletedAt = t, deleted = False\<rparr>"
  have upd: "mem_update p buffer prev t st =
      (if stale then (Inl FileModifiedSinceLastSync, st)
       else (Inr (), st\<lparr>mem_files := putFile ?file (mem_files st),
                        mem_contents := (mem_contents st)(p := buffer)\<rparr>))"
    unfolding mem_update_def stale_def ..
  have "\<not> stale" using assms unfolding upd by (cases stale) simp_all
  then have "mem_files (snd (mem_update p buffer prev t st)) = putFile ?file (mem_files st)"
    unfolding upd by simp
  moreover have "writtenAt p t (mem_files st) (putFile ?file (mem_files st))"
    by (rule writtenAt_putFile) simp_all
  ultimately show ?thesis by (simp only:)
qed

lemma memStore_contract:
  "storeContract memHost memRemote (\<lambda>w. mem_files (fst w)) (\<lambda>w. mem_files (snd w))"
  unfolding storeContract_def
proof (intro conjI allI impI)
  fix w :: "MemStore \<times> MemStore" and fs
  assume "fst (fs_getFiles memHost w) = Inr fs"
  then show "fs = mem_files (fst w)"
    by (cases w) (simp add: memHost_simps)
next
  fix w :: "MemStore \<times> MemStore" and fs
  assume "fst (fs_getFiles memRemote w) = Inr fs"
  then show "fs = mem_files (snd w)"
    by (cases w) (simp add: memRemote_simps)
next
  fix p and w :: "MemStore \<times> MemStore"
  show "mem_files (fst (snd (fs_getFileContent memHost p w))) = mem_files (fst w)"
    by (cases w) (simp add: memHost_simps)
  show "mem_files (snd (snd (fs_getFileContent memHost p w))) = mem_files (snd w)"
    by (cases w) (simp add: memHost_simps)
  show "mem_files (fst (snd (fs_getFileContent memRemote p w))) = mem_files (fst w)"
    by (cases w) (simp add: memRemote_simps)
  show "mem_files (snd (snd (fs_getFileContent memRemote p w))) = mem_files (snd w)"
    by (cases w) (simp add: memRemote_simps)
next
  fix p buffer prev t and w w' :: "MemStore \<times> MemStore"
  assume u: "fs_update memHost p buffer prev t w = (Inr (), w')"
  obtain h r where w: "w = (h, r)" by (cases w)
  from u have ok: "fst (mem_update p buffer prev t h) = Inr ()"
    and w': "w' = (snd (mem_update p buffer prev t h), r)"
    by (simp_all add: w memHost_simps)
  show "writtenAt p t (mem_files (fst w)) (mem_files (fst w'))"
    using mem_update_written[OF ok] by (simp add: w w')
  show "mem_files (snd w') = mem_files (snd w)" by (simp add: w w')
next
  fix p buffer prev t and w w' :: "MemStore \<times> MemStore"
  assume u: "fs_update memRemote p buffer prev t w = (Inr (), w')"
  obtain h r where w: "w = (h, r)" by (cases w)
  from u have ok: "fst (mem_update p buffer prev t r) = Inr ()"
    and w': "w' = (h, snd (mem_update p buffer prev t r))"
    by (simp_all add: w memRemote_simps)
  show "writtenAt p t (mem_files (snd w)) (mem_files (snd w'))"
    using mem_update_written[OF ok] by (simp add: w w')
  show "mem_files (fst w') = mem_files (fst w)" by (simp add: w w')
next
  fix p and w w' :: "MemStore \<times> MemStore"
  assume u: "fs_prune memHost p w = (Inr (), w')"
  obtain h r where w: "w = (h, r)" by (cases w)
  from u have w': "w' = (h\<lparr>mem_files := filter (\<lambda>f. \<not> (path f = p \<and> deleted f)) (mem_files h)\<rparr>, r)"
    by (simp add: w memHost_simps)
  have e: "mem_files (fst w') = filter (\<lambda>f. \<not> (path f = p \<and> deleted f)) (mem_files h)"
    by (simp add: w')
  show "prunedAt p (mem_files (fst w)) (mem_files (fst w'))"
    unfolding e w fst_conv by (rule prunedAt_filter)
  show "mem_files (snd w') = mem_files (snd w)" by (simp add: w w')
qed


lemma mem_mtime_simps:
  "mem_mtime \<lparr>mem_files = [], mem_contents = c\<rparr> p = 0"
  "mem_mtime \<lparr>mem_files = f # fs, mem_contents = c\<rparr> p =
     (if path f = p then (if deleted f then 0 else updatedAt f)
      else mem_mtime \<lparr>mem_files = fs, mem_contents = c\<rparr> p)"
  by (simp_all add: mem_mtime_def getFile_def)

theorem pass_then_plan_empty_witness:
  "fst (applyActions memHost memRemote plainCrypto (plainResolver Latest)
       (createSyncAction
         [\<lparr>path = ''a.bin'', size_bytes = 9, createdAt = 40, updatedAt = 200, deletedAt = 200, deleted = False\<rparr>,
          \<lparr>path = ''c.bin'', size_bytes = 0, createdAt = 120, updatedAt = 120, deletedAt = 120, deleted = True\<rparr>,
          \<lparr>path = ''d.bin'', size_bytes = 9, createdAt = 40, updatedAt = 210, deletedAt = 210, deleted = False\<rparr>]
         [\<lparr>path = ''b.bin'', size_bytes = 11, createdAt = 30, updatedAt = 150, deletedAt = 150, deleted = False\<rparr>,
          \<lparr>path = ''d.bin'', size_bytes = 11, createdAt = 30, updatedAt = 250, deletedAt = 250, deleted = False\<rparr>] 100) 500
     (\<lparr>mem_files =
         [\<lparr>path = ''a.bin'', size_bytes = 9, createdAt = 40, updatedAt = 200, deletedAt = 200, deleted = False\<rparr>,
          \<lparr>path = ''c.bin'', size_bytes = 0, createdAt = 120, updatedAt = 120, deletedAt = 120, deleted = True\<rparr>,
          \<lparr>path = ''d.bin'', size_bytes = 9, createdAt = 40, updatedAt = 210, deletedAt = 210, deleted = False\<rparr>],
        mem_contents = (\<lambda>p. ''host data'')\<rparr>,
      \<lparr>mem_files =
         [\<lparr>path = ''b.bin'', size_bytes = 11, createdAt = 30, updatedAt = 150, deletedAt = 150, deleted = False\<rparr>,
          \<lparr>path = ''d.bin'', size_bytes = 11, createdAt = 30, updatedAt = 250, deletedAt = 250, deleted = False\<rparr>],
        mem_contents = (\<lambda>p. ''remote data'')\<rparr>)) = Inr () \<and>
   createSyncAction
     (mem_files (fst (snd (applyActions memHost memRemote plainCrypto (plainResolver Latest)
       (createSyncAction
         [\<lparr>path = ''a.bin'', size_bytes = 9, createdAt = 40, updatedAt = 200, deletedAt = 200, deleted = False\<rparr>,
          \<lparr>path = ''c.bin'', size_bytes = 0, createdAt = 120, updatedAt = 120, deletedAt = 120, deleted = True\<rparr>,
          \<lparr>path = ''d.bin'', size_bytes = 9, createdAt = 40, updatedAt = 210, deletedAt = 210, deleted = False\<rparr>]
         [\<lparr>path = ''b.bin'', size_bytes = 11, createdAt = 30, updatedAt = 150, deletedAt = 150, deleted = False\<rparr>,
          \<lparr>path = ''d.bin'', size_bytes = 11, createdAt = 30, updatedAt = 250, deletedAt = 250, deleted = False\<rparr>] 100) 500
     (\<lparr>mem_files =
         [\<lparr>path = ''a.bin'', size_bytes = 9, createdAt = 40, updatedAt = 200, deletedAt = 200, deleted = False\<rparr>,
          \<lparr>path = ''c.bin'', size_bytes = 0, createdAt = 120, updatedAt = 120, deletedAt = 120, deleted = True\<rparr>,
          \<lparr>path = ''d.bin'', size_bytes = 9, createdAt = 40, updatedAt = 210, deletedAt = 210, deleted = False\<rparr>],
        mem_contents = (\<lambda>p. ''host data'')\<rparr>,
      \<lparr>mem_files =
         [\<lparr>path = ''b.bin'', size_bytes = 11, createdAt = 30, updatedAt = 150, deletedAt = 150, deleted = False\<rparr>,
          \<lparr>path = ''d.bin'', size_bytes = 11, createdAt = 30, updatedAt = 250, deletedAt = 250, deleted = False\<rparr>],
        mem_contents = (\<lambda>p. ''remote data'')\<rparr>)))))
     (mem_files (snd (snd (applyActions memHost memRemote plainCrypto (plainResolver Latest)
       (createSyncAction
         [\<lparr>path = ''a.bin'', size_bytes = 9, createdAt = 40, updatedAt = 200, deletedAt = 200, deleted = False\<rparr>,
          \<lparr>path = ''c.bin'', size_bytes = 0, createdAt = 120, updatedAt = 120, deletedAt = 120, deleted = True\<rparr>,
          \<lparr>path = ''d.bin'', size_bytes = 9, createdAt = 40, updatedAt = 210, deletedAt = 210, deleted = False\<rparr>]
         [\<lparr>path = ''b.bin'', size_bytes = 11, createdAt = 30, updatedAt = 150, deletedAt = 150, deleted = False\<rparr>,
          \<lparr>path = ''d.bin'', size_bytes = 11, createdAt = 30, updatedAt = 250, deletedAt = 250, deleted = False\<rparr>] 100) 500
     (\<lparr>mem_files =
         [\<lparr>path = ''a.bin'', size_bytes = 9, createdAt = 40, updatedAt = 200, deletedAt = 200, deleted = False\<rparr>,
          \<lparr>path = ''c.bin'', size_bytes = 0, createdAt = 120, updatedAt = 120, deletedAt = 120, deleted = True\<rparr>,
          \<lparr>path = ''d.bin'', size_bytes = 9, createdAt = 40, updatedAt = 210, deletedAt = 210, deleted = False\<rparr>],
        mem_contents = (\<lambda>p. ''host data'')\<rparr>,
      \<lparr>mem_files =
         [\<lparr>path = ''b.bin'', size_bytes = 11, createdAt = 30, updatedAt = 150, deletedAt = 150, deleted = False\<rparr>,
          \<lparr>path = ''d.bin'', size_bytes = 11, createdAt = 30, updatedAt = 250, deletedAt = 250, deleted = False\<rparr>],
        mem_contents = (\<lambda>p. ''remote data'')\<rparr>)))))
     500 = []"
proof -
  let ?A = "\<lparr>path = ''a.bin'', size_bytes = 9, createdAt = 40, updatedAt = 200, deletedAt = 200, deleted = False\<rparr>"
  let ?B = "\<lparr>path = ''b.bin'', size_bytes = 11, createdAt = 30, updatedAt = 150, deletedAt = 150, deleted = False\<rparr>"
  let ?C = "\<lparr>path = ''c.bin'', size_bytes = 0, createdAt = 120, updatedAt = 120, deletedAt = 120, deleted = True\<rparr>"
  let ?DH = "\<lparr>path = ''d.bin'', size_bytes = 9, createdAt = 40, updatedAt = 210, deletedAt = 210, deleted = False\<rparr>"
  let ?DR = "\<lparr>path = ''d.bin'', size_bytes = 11, createdAt = 30, updatedAt = 250, deletedAt = 250, deleted = False\<rparr>"
  let ?w = "(\<lparr>mem_files = [?A, ?C, ?DH], mem_contents = (\<lambda>p. ''host data'')\<rparr>,
      \<lparr>mem_files = [?B, ?DR], mem_contents = (\<lambda>p. ''remote data'')\<rparr>)"
  let ?cr = "plainResolver Latest"
  let ?conflict = "\<lparr>hostFile = Some ?DH, remoteFile = Some ?DR, action = Conflict\<rparr>"
  have strategy: "getResolutionStrategy (resolver_minimatch ?cr) (resolver_settings ?cr) ?DH ?DR = Latest"
    by (simp add: getResolutionStrategy_def plainResolver_def isTextBasedFile_def getExtension_def
          flattenRules_def)
  have plan: "createSyncAction [?A, ?C, ?DH] [?B, ?DR] 100 =
      [\<lparr>hostFile = Some ?C, remoteFile = None, action = Prune\<rparr>,
       \<lparr>hostFile = Some ?A, remoteFile = None, action = Push\<rparr>,
       ?conflict,
       \<lparr>hostFile = None, remoteFile = Some ?B, action = Pull\<rparr>]"
    by (simp add: createSyncAction_def syncActionMap_def hostDeletedStep_def hostModifiedStep_def
          remoteModifiedStep_def getFile_def set_action_def createAction_def)
  have hc: "handleConflict memHost memRemote plainCrypto ?cr ?DH ?DR (h, r) =
      (Inr (Latest, None), (h, r))" for h r
    unfolding handleConflict_def Let_def strategy
    by (simp add: io_bind_def io_lift_def io_return_def memHost_simps memRemote_simps
          plainCrypto_def)
  have conflict: "applySyncAction memHost memRemote plainCrypto ?cr ?conflict 500 (h, r) =
      applySyncAction memHost memRemote plainCrypto ?cr (?conflict\<lparr>action := Pull\<rparr>) 500 (h, r)"
    for h r
    by (simp add: applySyncAction.simps[of _ _ _ _ ?conflict] io_bind_def hc)
  have ok: "fst (applyActions memHost memRemote plainCrypto ?cr
      (createSyncAction [?A, ?C, ?DH] [?B, ?DR] 100) 500 ?w) = Inr ()"
    unfolding plan
    by (simp add: conflict applySyncAction_Push applySyncAction_Pull applySyncAction_Prune
          io_bind_def io_return_def memHost_simps memRemote_simps mem_update_def mem_mtime_simps
          putFile_def getFile_def)
  have run: "applyActions memHost memRemote plainCrypto ?cr
      (createSyncAction [?A, ?C, ?DH] [?B, ?DR] 100) 500 ?w =
      (Inr (), snd (applyActions memHost memRemote plainCrypto ?cr
         (createSyncAction [?A, ?C, ?DH] [?B, ?DR] 100) 500 ?w))"
    using ok by (metis prod.collapse)
  have "createSyncAction
     (mem_files (fst (snd (applyActions memHost memRemote plainCrypto ?cr
        (createSyncAction [?A, ?C, ?DH] [?B, ?DR] 100) 500 ?w))))
     (mem_files (snd (snd (applyActions memHost memRemote plainCrypto ?cr
        (createSyncAction [?A, ?C, ?DH] [?B, ?DR] 100) 500 ?w))))
     500 = []"
  proof (rule pass_then_plan_empty[OF memStore_contract, where w = ?w and lsa = 100
        and cr = ?cr and crypto = plainCrypto])
    show "distinct (map path (mem_files (fst ?w)))" and "distinct (map path (mem_files (snd ?w)))"
      by simp_all
    show "\<forall>f \<in> set (mem_files (fst ?w)) \<union> set (mem_files (snd ?w)).
        \<not> deleted f \<longrightarrow> updatedAt f \<le> 500"
      by simp
    show "\<forall>a \<in> set (createSyncAction (mem_files (fst ?w)) (mem_files (snd ?w)) 100).
           action a \<noteq> Remove \<and>
           (action a = Conflict \<longrightarrow>
              (\<forall>h r. hostFile a = Some h \<longrightarrow> remoteFile a = Some r \<longrightarrow>
                 getResolutionStrategy (resolver_minimatch ?cr) (resolver_settings ?cr) h r \<noteq> Ignore))"
      using plan strategy by simp
    show "applyActions memHost memRemote plainCrypto ?cr
           (createSyncAction (mem_files (fst ?w)) (mem_files (snd ?w)) 100) 500 ?w =
          (Inr (), snd (applyActions memHost memRemote plainCrypto ?cr
             (createSyncAction [?A, ?C, ?DH] [?B, ?DR] 100) 500 ?w))"
      using run by simp
  qed
  then show ?thesis using ok by simp
qed

lemma plainResolver_bin:
  "getResolutionStrategy (resolver_minimatch (plainResolver fallback))
     (resolver_settings (plainResolver fallback))
     (f\<lparr>path := ''a.bin''\<rparr>) r = fallback"
  by (simp add: getResolutionStrategy_def plainResolver_def isTextBasedFile_def getExtension_def
        flattenRules_def)

text \<open>
  The claim as first stated (for every pair of store states) fails.  Host and remote
  both hold \<^verbatim>\<open>a.bin\<close>, the remote copy the newer one and newer than the watermark: the
  plan is a conflict.  With \<^verbatim>\<open>ignore\<close> as the strategy the applier reads both copies
  and writes nothing, so the stores are as before, and the next plan, whatever its
  watermark, pulls the path because the host copy is the older one.
\<close>

theorem pass_then_plan_empty_counterexample:
  "createSyncAction [\<lparr>path = ''a.bin'', size_bytes = 9, createdAt = 40, updatedAt = 200, deletedAt = 200, deleted = False\<rparr>]
     [\<lparr>path = ''a.bin'', size_bytes = 11, createdAt = 30, updatedAt = 250, deletedAt = 250, deleted = False\<rparr>] 100 =
     [\<lparr>hostFile = Some \<lparr>path = ''a.bin'', size_bytes = 9, createdAt = 40, updatedAt = 200, deletedAt = 200, deleted = False\<rparr>,
       remoteFile = Some \<lparr>path = ''a.bin'', size_bytes = 11, createdAt = 30, updatedAt = 250, deletedAt = 250, deleted = False\<rparr>,
       action = Conflict\<rparr>] \<and>
   applyActions memHost memRemote plainCrypto (plainResolver Ignore)
       (createSyncAction [\<lparr>path = ''a.bin'', size_bytes = 9, createdAt = 40, updatedAt = 200, deletedAt = 200, deleted = False\<rparr>]
          [\<lparr>path = ''a.bin'', size_bytes = 11, createdAt = 30, updatedAt = 250, deletedAt = 250, deleted = False\<rparr>] 100) 500
     (\<lparr>mem_files = [\<lparr>path = ''a.bin'', size_bytes = 9, createdAt = 40, updatedAt = 200, deletedAt = 200, deleted = False\<rparr>], mem_contents = (\<lambda>p. ''host data'')\<rparr>,
      \<lparr>mem_files = [\<lparr>path = ''a.bin'', size_bytes = 11, createdAt = 30, updatedAt = 250, deletedAt = 250, deleted = False\<rparr>], mem_contents = (\<lambda>p. ''remote data'')\<rparr>) =
     (Inr (), (\<lparr>mem_files = [\<lparr>path = ''a.bin'', size_bytes = 9, createdAt = 40, updatedAt = 200, deletedAt = 200, deleted = False\<rparr>], mem_contents = (\<lambda>p. ''host data'')\<rparr>,
      \<lparr>mem_files = [\<lparr>path = ''a.bin'', size_bytes = 11, createdAt = 30, updatedAt = 250, deletedAt = 250, deleted = False\<rparr>], mem_contents = (\<lambda>p. ''remote data'')\<rparr>)) \<and>
   createSyncAction
     (mem_files (fst (snd (applyActions memHost memRemote plainCrypto (plainResolver Ignore)
       (createSyncAction [\<lparr>path = ''a.bin'', size_bytes = 9, createdAt = 40, updatedAt = 200, deletedAt = 200, deleted = False\<rparr>]
          [\<lparr>path = ''a.bin'', size_bytes = 11, createdAt = 30, updatedAt = 250, deletedAt = 250, deleted = False\<rparr>] 100) 500
     (\<lparr>mem_files = [\<lparr>path = ''a.bin'', size_bytes = 9, createdAt = 40, updatedAt = 200, deletedAt = 200, deleted = False\<rparr>], mem_contents = (\<lambda>p. ''host data'')\<rparr>,
      \<lparr>mem_files = [\<lparr>path = ''a.bin'', size_bytes = 11, createdAt = 30, updatedAt = 250, deletedAt = 250, deleted = False\<rparr>], mem_contents = (\<lambda>p. ''remote data'')\<rparr>)))))
     (mem_files (snd (snd (applyActions memHost memRemote plainCrypto (plainResolver Ignore)
       (createSyncAction [\<lparr>path = ''a.bin'', size_bytes = 9, createdAt = 40, updatedAt = 200, deletedAt = 200, deleted = False\<rparr>]
          [\<lparr>path = ''a.bin'', size_bytes = 11, createdAt = 30, updatedAt = 250, deletedAt = 250, deleted = False\<rparr>] 100) 500
     (\<lparr>mem_files = [\<lparr>path = ''a.bin'', size_bytes = 9, createdAt = 40, updatedAt = 200, deletedAt = 200, deleted = False\<rparr>], mem_contents = (\<lambda>p. ''host data'')\<rparr>,
      \<lparr>mem_files = [\<lparr>path = ''a.bin'', size_bytes = 11, createdAt = 30, updatedAt = 250, deletedAt = 250, deleted = False\<rparr>], mem_contents = (\<lambda>p. ''remote data'')\<rparr>)))))
     500 =
     [\<lparr>hostFile = Some \<lparr>path = ''a.bin'', size_bytes = 9, createdAt = 40, updatedAt = 200, deletedAt = 200, deleted = False\<rparr>,
       remoteFile = Some \<lparr>path = ''a.bin'', size_bytes = 11, createdAt = 30, updatedAt = 250, deletedAt = 250, deleted = False\<rparr>,
       action = Pull\<rparr>]"
proof -
  let ?H = "\<lparr>path = ''a.bin'', size_bytes = 9, createdAt = 40, updatedAt = 200, deletedAt = 200, deleted = False\<rparr>"
  let ?R = "\<lparr>path = ''a.bin'', size_bytes = 11, createdAt = 30, updatedAt = 250, deletedAt = 250, deleted = False\<rparr>"
  let ?w = "(\<lparr>mem_files = [\<lparr>path = ''a.bin'', size_bytes = 9, createdAt = 40, updatedAt = 200, deletedAt = 200, deleted = False\<rparr>], mem_contents = (\<lambda>p. ''host data'')\<rparr>,
      \<lparr>mem_files = [\<lparr>path = ''a.bin'', size_bytes = 11, createdAt = 30, updatedAt = 250, deletedAt = 250, deleted = False\<rparr>], mem_contents = (\<lambda>p. ''remote data'')\<rparr>)"
  have strategy: "getResolutionStrategy (resolver_minimatch (plainResolver Ignore))
     (resolver_settings (plainResolver Ignore)) ?H ?R = Ignore"
    using plainResolver_bin[of Ignore ?H ?R] by simp
  have plan: "createSyncAction [?H] [?R] 100 =
      [\<lparr>hostFile = Some ?H, remoteFile = Some ?R, action = Conflict\<rparr>]"
    by (simp add: createSyncAction_def syncActionMap_def hostModifiedStep_def
          remoteModifiedStep_def getFile_def set_action_def createAction_def)
  have hc: "handleConflict memHost memRemote plainCrypto (plainResolver Ignore) ?H ?R ?w =
      (Inr (Ignore, None), ?w)"
    unfolding handleConflict_def Let_def strategy
    by (simp add: io_bind_def io_lift_def io_return_def memHost_simps memRemote_simps
          plainCrypto_def)
  have run: "applyActions memHost memRemote plainCrypto (plainResolver Ignore)
      (createSyncAction [?H] [?R] 100) 500 ?w = (Inr (), ?w)"
    unfolding plan
    by (simp add: applySyncAction.simps[of _ _ _ _ "\<lparr>hostFile = Some ?H, remoteFile = Some ?R, action = Conflict\<rparr>"]
          io_bind_def io_return_def hc)
  have again: "createSyncAction [?H] [?R] 500 =
      [\<lparr>hostFile = Some ?H, remoteFile = Some ?R, action = Pull\<rparr>]"
    by (simp add: createSyncAction_def syncActionMap_def hostModifiedStep_def
          remoteModifiedStep_def getFile_def set_action_def createAction_def)
  show ?thesis
    unfolding run using plan again by simp
qed


text \<open>
  Two more runs on the stores kept in memory show what the other conditions on a pass
  are for.  A remove leaves a tombstone on both sides, which the
  next plan prunes; and a file stamped later than the pass's \<open>now\<close> is, once pushed,
  newer than the watermark on both sides, which the next plan takes for a conflict.
\<close>

lemma remove_then_prune_example:
  "createSyncAction [\<lparr>path = ''a.bin'', size_bytes = 9, createdAt = 40, updatedAt = 100, deletedAt = 100, deleted = False\<rparr>]
     [\<lparr>path = ''a.bin'', size_bytes = 0, createdAt = 150, updatedAt = 150, deletedAt = 150, deleted = True\<rparr>] 100 =
     [\<lparr>hostFile = Some \<lparr>path = ''a.bin'', size_bytes = 9, createdAt = 40, updatedAt = 100, deletedAt = 100, deleted = False\<rparr>,
       remoteFile = Some \<lparr>path = ''a.bin'', size_bytes = 0, createdAt = 150, updatedAt = 150, deletedAt = 150, deleted = True\<rparr>,
       action = Remove\<rparr>] \<and>
   fst (applyActions memHost memRemote plainCrypto (plainResolver Latest)
     [\<lparr>hostFile = Some \<lparr>path = ''a.bin'', size_bytes = 9, createdAt = 40, updatedAt = 100, deletedAt = 100, deleted = False\<rparr>,
       remoteFile = Some \<lparr>path = ''a.bin'', size_bytes = 0, createdAt = 150, updatedAt = 150, deletedAt = 150, deleted = True\<rparr>,
       action = Remove\<rparr>] 500
     (\<lparr>mem_files = [\<lparr>path = ''a.bin'', size_bytes = 9, createdAt = 40, updatedAt = 100, deletedAt = 100, deleted = False\<rparr>], mem_contents = (\<lambda>p. ''host data'')\<rparr>,
      \<lparr>mem_files = [\<lparr>path = ''a.bin'', size_bytes = 0, createdAt = 150, updatedAt = 150, deletedAt = 150, deleted = True\<rparr>], mem_contents = (\<lambda>p. ''remote data'')\<rparr>)) = Inr () \<and>
   map action (createSyncAction
     (mem_files (fst (snd (applyActions memHost memRemote plainCrypto (plainResolver Latest)
       [\<lparr>hostFile = Some \<lparr>path = ''a.bin'', size_bytes = 9, createdAt = 40, updatedAt = 100, deletedAt = 100, deleted = False\<rparr>,
         remoteFile = Some \<lparr>path = ''a.bin'', size_bytes = 0, createdAt = 150, updatedAt = 150, deletedAt = 150, deleted = True\<rparr>,
         action = Remove\<rparr>] 500
       (\<lparr>mem_files = [\<lparr>path = ''a.bin'', size_bytes = 9, createdAt = 40, updatedAt = 100, deletedAt = 100, deleted = False\<rparr>], mem_contents = (\<lambda>p. ''host data'')\<rparr>,
      \<lparr>mem_files = [\<lparr>path = ''a.bin'', size_bytes = 0, createdAt = 150, updatedAt = 150, deletedAt = 150, deleted = True\<rparr>], mem_contents = (\<lambda>p. ''remote data'')\<rparr>)))))
     (mem_files (snd (snd (applyActions memHost memRemote plainCrypto (plainResolver Latest)
       [\<lparr>hostFile = Some \<lparr>path = ''a.bin'', size_bytes = 9, createdAt = 40, updatedAt = 100, deletedAt = 100, deleted = False\<rparr>,
         remoteFile = Some \<lparr>path = ''a.bin'', size_bytes = 0, createdAt = 150, updatedAt = 150, deletedAt = 150, deleted = True\<rparr>,
         action = Remove\<rparr>] 500
       (\<lparr>mem_files = [\<lparr>path = ''a.bin'', size_bytes = 9, createdAt = 40, updatedAt = 100, deletedAt = 100, deleted = False\<rparr>], mem_contents = (\<lambda>p. ''host data'')\<rparr>,
      \<lparr>mem_files = [\<lparr>path = ''a.bin'', size_bytes = 0, createdAt = 150, updatedAt = 150, deletedAt = 150, deleted = True\<rparr>], mem_contents = (\<lambda>p. ''remote data'')\<rparr>)))))
     500) = [Prune]"
  by (simp add: createSyncAction_def syncActionMap_def remoteDeletedStep_def hostDeletedStep_def
        hostModifiedStep_def remoteModifiedStep_def getFile_def set_action_def createAction_def
        applySyncAction_Remove io_bind_def io_return_def memHost_simps memRemote_simps
        mem_remove_def mem_mtime_simps putFile_def)

lemma future_timestamp_example:
  "createSyncAction [\<lparr>path = ''a.bin'', size_bytes = 9, createdAt = 40, updatedAt = 900, deletedAt = 900, deleted = False\<rparr>] [] 100 =
     [\<lparr>hostFile = Some \<lparr>path = ''a.bin'', size_bytes = 9, createdAt = 40, updatedAt = 900, deletedAt = 900, deleted = False\<rparr>,
       remoteFile = None, action = Push\<rparr>] \<and>
   fst (applyActions memHost memRemote plainCrypto (plainResolver Latest)
     [\<lparr>hostFile = Some \<lparr>path = ''a.bin'', size_bytes = 9, createdAt = 40, updatedAt = 900, deletedAt = 900, deleted = False\<rparr>,
       remoteFile = None, action = Push\<rparr>] 500
     (\<lparr>mem_files = [\<lparr>path = ''a.bin'', size_bytes = 9, createdAt = 40, updatedAt = 900, deletedAt = 900, deleted = False\<rparr>], mem_contents = (\<lambda>p. ''host data'')\<rparr>,
      \<lparr>mem_files = [], mem_contents = (\<lambda>p. ''remote data'')\<rparr>)) = Inr () \<and>
   map action (createSyncAction
     (mem_files (fst (snd (applyActions memHost memRemote plainCrypto (plainResolver Latest)
       [\<lparr>hostFile = Some \<lparr>path = ''a.bin'', size_bytes = 9, createdAt = 40, updatedAt = 900, deletedAt = 900, deleted = False\<rparr>,
         remoteFile = None, action = Push\<rparr>] 500
       (\<lparr>mem_files = [\<lparr>path = ''a.bin'', size_bytes = 9, createdAt = 40, updatedAt = 900, deletedAt = 900, deleted = False\<rparr>], mem_contents = (\<lambda>p. ''host data'')\<rparr>,
      \<lparr>mem_files = [], mem_contents = (\<lambda>p. ''remote data'')\<rparr>)))))
     (mem_files (snd (snd (applyActions memHost memRemote plainCrypto (plainResolver Latest)
       [\<lparr>hostFile = Some \<lparr>path = ''a.bin'', size_bytes = 9, createdAt = 40, updatedAt = 900, deletedAt = 900, deleted = False\<rparr>,
         remoteFile = None, action = Push\<rparr>] 500
       (\<lparr>mem_files = [\<lparr>path = ''a.bin'', size_bytes = 9, createdAt = 40, updatedAt = 900, deletedAt = 900, deleted = False\<rparr>], mem_contents = (\<lambda>p. ''host data'')\<rparr>,
      \<lparr>mem_files = [], mem_contents = (\<lambda>p. ''remote data'')\<rparr>)))))
     500) = [Conflict]"
  by (simp add: createSyncAction_def syncActionMap_def remoteDeletedStep_def hostDeletedStep_def
        hostModifiedStep_def remoteModifiedStep_def getFile_def set_action_def createAction_def
        applySyncAction_Push io_bind_def io_return_def memHost_simps memRemote_simps
        mem_update_def mem_mtime_simps putFile_def)

end
